theory Spec2Isabelle
  imports Main "HOL-Library.Word"
begin

section \<open>The bounded function queue of qthreads (function\_queue.c)\<close>

text \<open>
  The queue is a circular buffer of \<open>max_elements\<close> slots guarded by a recursive
  pthread mutex. The model is sequential: one call of the interface at a time, by one
  thread. What the pthread library and \<open>malloc\<close> return is not decided by the queue,
  so each call takes those return values as an argument and branches on them exactly
  where the C code does.
\<close>

subsection \<open>Data\<close>

text \<open>
  \<open>enum pt_error\<close>. The header pt\_error.h is not among the sources; the enumerators
  are the ones function\_queue.c uses. \<open>PT_SUCCESS\<close> is the enumeration's zero:
  threading\_queue.c tests \<open>fq_pop(...) == 0\<close> for success, and the tests \<open>ret == 0\<close>
  of function\_queue.c are written \<open>ret = PT_SUCCESS\<close> below.
\<close>

datatype pt_error =
  PT_SUCCESS | PT_EPML | PT_EPMAI | PT_EPMU | PT_EMALLOC | PT_EPO | PT_EPMD
  | PT_EFQFULL | PT_EFQEMPTY | PT_EPMTL

text \<open>
  \<open>struct function_queue_element\<close>: a function pointer and its opaque argument
  (\<open>fqe.func(fqe.arg)\<close> in threading\_queue.c), both kept as addresses.
\<close>

record function_queue_element =
  func :: nat
  arg :: nat

text \<open>
  \<open>struct function_queue\<close>. The indices and counters are \<open>unsigned\<close> (as the
  parameter \<open>max_elements\<close> of \<open>fq_init\<close> and the temporary of \<open>fq_peek\<close> are), so
  they are 32-bit words and \<open>++\<close>, \<open>--\<close> wrap. \<open>elements\<close> is the pointer to the
  buffer: \<open>None\<close> is \<open>NULL\<close>, \<open>Some xs\<close> a live allocation with the slots \<open>xs\<close>.
  The fields \<open>size\<close> and \<open>back\<close> of the C struct are \<open>size_q\<close> and \<open>back_q\<close>
  here. The field \<open>lock\<close> has no counterpart: what the calls on it return comes from
  \<open>mutex_calls\<close>.
\<close>

record function_queue =
  elements :: "function_queue_element list option"
  front :: "32 word"
  back_q :: "32 word"
  size_q :: "32 word"
  max_elements :: "32 word"

text \<open>
  The return values of the three pthread calls one function body makes on \<open>q->lock\<close>:
  it calls either \<open>pthread_mutex_lock\<close> or \<open>pthread_mutex_trylock\<close> once, and
  \<open>pthread_mutex_unlock\<close> at most once. A nested call (\<open>fq_is_full\<close> inside
  \<open>fq_push\<close>, \<open>fq_is_empty\<close> inside \<open>fq_pop\<close> and \<open>fq_peek\<close>) has its own.
\<close>

record mutex_calls =
  pthread_mutex_lock :: int
  pthread_mutex_trylock :: int
  pthread_mutex_unlock :: int

subsection \<open>Access to the buffer\<close>

text \<open>
  \<open>q->elements[i]\<close> read and written. An access through \<open>NULL\<close> or past the end of
  the allocation is undefined behaviour in C; here it is \<open>None\<close>, and every function
  that indexes the buffer returns an \<open>option\<close>.
\<close>

definition elements_at :: "function_queue \<Rightarrow> 32 word \<Rightarrow> function_queue_element option" where
  "elements_at q i =
     (case elements q of
        None \<Rightarrow> None
      | Some xs \<Rightarrow> if unat i < length xs then Some (xs ! unat i) else None)"

definition elements_set ::
  "function_queue \<Rightarrow> 32 word \<Rightarrow> function_queue_element \<Rightarrow> function_queue option" where
  "elements_set q i e =
     (case elements q of
        None \<Rightarrow> None
      | Some xs \<Rightarrow>
          if unat i < length xs then Some (q\<lparr>elements := Some (xs[unat i := e])\<rparr>) else None)"

subsection \<open>The queries\<close>

text \<open>
  \<open>fq_is_empty(q, is_empty, block)\<close>: the second argument is the value \<open>*is_empty\<close>
  has before the call, the second component of the result the value it has after.
\<close>

definition fq_is_empty :: "function_queue \<Rightarrow> int \<Rightarrow> int \<Rightarrow> mutex_calls \<Rightarrow> pt_error \<times> int" where
  "fq_is_empty q is_empty block m =
     (let pml = (if block \<noteq> 0 then pthread_mutex_lock m else pthread_mutex_trylock m) in
      if pml = 0 then
        (let is_empty' = (if size_q q = 0 then 1 else 0);
             pml' = pthread_mutex_unlock m
         in (if pml' \<noteq> 0 then PT_EPMU else PT_SUCCESS, is_empty'))
      else (if block = 0 then PT_EPMTL else PT_EPML, is_empty))"

text \<open>
  \<open>fq_is_full\<close> tests \<open>ret == 0\<close>, not \<open>pml == 0\<close>, after the lock call; \<open>ret\<close> is
  still \<open>PT_SUCCESS\<close> there.
\<close>

definition fq_is_full :: "function_queue \<Rightarrow> int \<Rightarrow> int \<Rightarrow> mutex_calls \<Rightarrow> pt_error \<times> int" where
  "fq_is_full q is_empty block m =
     (let ret = PT_SUCCESS;
          pml = (if block \<noteq> 0 then pthread_mutex_lock m else pthread_mutex_trylock m) in
      if ret = PT_SUCCESS then
        (let is_empty' = (if size_q q = max_elements q then 1 else 0);
             pml' = pthread_mutex_unlock m
         in (if pml' \<noteq> 0 then PT_EPMU else ret, is_empty'))
      else (if block = 0 then PT_EPMTL else PT_EPML, is_empty))"

subsection \<open>Push, pop, peek\<close>

text \<open>
  \<open>fq_push(q, e, block)\<close>: \<open>m\<close> holds the results of its own lock and unlock,
  \<open>mi\<close> those of the nested \<open>fq_is_full\<close>, whose return value is dropped.
\<close>

definition fq_push ::
  "function_queue \<Rightarrow> function_queue_element \<Rightarrow> int \<Rightarrow> mutex_calls \<Rightarrow> mutex_calls
   \<Rightarrow> (pt_error \<times> function_queue) option" where
  "fq_push q e block m mi =
     (let pml = (if block \<noteq> 0 then pthread_mutex_lock m else pthread_mutex_trylock m) in
      if pml = 0 then
        (let is_full = snd (fq_is_full q 0 block mi);
             body =
               (if is_full \<noteq> 0 then Some (PT_EFQFULL, q)
                else
                  (let q1 = q\<lparr>size_q := size_q q + 1\<rparr>;
                       q2 = q1\<lparr>back_q := back_q q1 + 1\<rparr>;
                       q3 = (if back_q q2 = max_elements q2 then q2\<lparr>back_q := 0\<rparr> else q2)
                   in case elements_set q3 (back_q q3) e of
                        None \<Rightarrow> None
                      | Some q4 \<Rightarrow> Some (PT_SUCCESS, q4)))
         in case body of
              None \<Rightarrow> None
            | Some (ret, q') \<Rightarrow>
                (let pml' = pthread_mutex_unlock m
                 in Some (if pml' \<noteq> 0 then PT_EPMU else ret, q')))
      else Some (if block = 0 then PT_EPMTL else PT_EPML, q))"

text \<open>
  \<open>fq_pop(q, e, block)\<close>: the second argument is the value of \<open>*e\<close> before the call,
  the third component of the result its value after.
\<close>

definition fq_pop ::
  "function_queue \<Rightarrow> function_queue_element \<Rightarrow> int \<Rightarrow> mutex_calls \<Rightarrow> mutex_calls
   \<Rightarrow> (pt_error \<times> function_queue \<times> function_queue_element) option" where
  "fq_pop q e block m mi =
     (let pml = (if block \<noteq> 0 then pthread_mutex_lock m else pthread_mutex_trylock m) in
      if pml = 0 then
        (let is_empty = snd (fq_is_empty q 0 block mi);
             body =
               (if is_empty \<noteq> 0 then Some (PT_EFQEMPTY, q, e)
                else
                  (let q1 = q\<lparr>size_q := size_q q - 1\<rparr>;
                       q2 = q1\<lparr>front := front q1 + 1\<rparr>;
                       q3 = (if front q2 = max_elements q2 then q2\<lparr>front := 0\<rparr> else q2)
                   in case elements_at q3 (front q3) of
                        None \<Rightarrow> None
                      | Some e' \<Rightarrow> Some (PT_SUCCESS, q3, e')))
         in case body of
              None \<Rightarrow> None
            | Some (ret, q', e') \<Rightarrow>
                (let pml' = pthread_mutex_unlock m
                 in Some (if pml' \<noteq> 0 then PT_EPMU else ret, q', e')))
      else Some (if block = 0 then PT_EPMTL else PT_EPML, q, e))"

text \<open>
  \<open>fq_peek\<close> tests \<open>ret == 0\<close> after the lock call, as \<open>fq_is_full\<close> does, where
  \<open>fq_pop\<close> tests \<open>pml == 0\<close>.
\<close>

definition fq_peek ::
  "function_queue \<Rightarrow> function_queue_element \<Rightarrow> int \<Rightarrow> mutex_calls \<Rightarrow> mutex_calls
   \<Rightarrow> (pt_error \<times> function_queue \<times> function_queue_element) option" where
  "fq_peek q e block m mi =
     (let ret = PT_SUCCESS;
          pml = (if block \<noteq> 0 then pthread_mutex_lock m else pthread_mutex_trylock m) in
      if ret = PT_SUCCESS then
        (let is_empty = snd (fq_is_empty q 0 block mi);
             body =
               (if is_empty \<noteq> 0 then Some (PT_EFQEMPTY, q, e)
                else
                  (let tmp = front q + 1;
                       tmp' = (if tmp = max_elements q then 0 else tmp)
                   in case elements_at q tmp' of
                        None \<Rightarrow> None
                      | Some e' \<Rightarrow> Some (ret, q, e')))
         in case body of
              None \<Rightarrow> None
            | Some (ret', q', e') \<Rightarrow>
                (let pml' = pthread_mutex_unlock m
                 in Some (if pml' \<noteq> 0 then PT_EPMU else ret', q', e')))
      else Some (if block = 0 then PT_EPMTL else PT_EPML, q, e))"

subsection \<open>Construction\<close>

text \<open>
  What the environment returns to one call of \<open>fq_init\<close>: \<open>pthread_once\<close>, the two
  calls of \<open>init_attr\<close> (run once, their results kept in \<open>init_attr_ret\<close>),
  \<open>pthread_mutex_init\<close>, \<open>malloc\<close> and \<open>pthread_mutex_destroy\<close>. \<open>malloc\<close> returns
  \<open>NULL\<close> (\<open>None\<close>) or a block whose bytes are not initialised: \<open>Some junk\<close>, with
  \<open>junk i\<close> the value slot \<open>i\<close> happens to hold. The size passed to it,
  \<open>max_elements * sizeof(struct function_queue_element)\<close>, is taken not to overflow
  \<open>size_t\<close> (a 64-bit \<open>size_t\<close>), so the block has \<open>max_elements\<close> slots.
\<close>

record init_calls =
  pthread_once :: int
  pthread_mutexattr_init :: int
  pthread_mutexattr_settype :: int
  pthread_mutex_init :: int
  malloc :: "(nat \<Rightarrow> function_queue_element) option"
  pthread_mutex_destroy :: int

text \<open>
  \<open>init_attr\<close> fills the static \<open>init_attr_ret\<close>, returned here as the pair
  \<open>(init, settype)\<close>; \<open>settype\<close> keeps its static initial value 0 when
  \<open>pthread_mutexattr_init\<close> fails.
\<close>

definition init_attr :: "init_calls \<Rightarrow> int \<times> int" where
  "init_attr c =
     (let init = pthread_mutexattr_init c in
      if init = 0 then (init, pthread_mutexattr_settype c) else (init, 0))"

definition fq_init :: "function_queue \<Rightarrow> 32 word \<Rightarrow> init_calls \<Rightarrow> pt_error \<times> function_queue" where
  "fq_init q n c =
     (let po = pthread_once c in
      if po = 0 then
        (let init_attr_ret = init_attr c in
         if fst init_attr_ret \<noteq> 0 then (PT_EPML, q)
         else if snd init_attr_ret \<noteq> 0 then (PT_EPMAI, q)
         else if pthread_mutex_init c = 0 then
           (let q1 = q\<lparr>front := 0\<rparr>;
                q2 = q1\<lparr>back_q := 0\<rparr>;
                q3 = q2\<lparr>size_q := 0\<rparr>;
                q4 = q3\<lparr>max_elements := n\<rparr>;
                q5 = q4\<lparr>elements :=
                       (case malloc c of
                          None \<Rightarrow> None
                        | Some junk \<Rightarrow> Some (map junk [0..<unat (max_elements q4)]))\<rparr>
            in if elements q5 = None then
                 (let pml = pthread_mutex_destroy c
                  in (if pml \<noteq> 0 then PT_EPMU else PT_EMALLOC, q5))
               else (PT_SUCCESS, q5))
         else (PT_EPML, q))
      else (PT_EPO, q))"

subsection \<open>Lock outcomes and invariants\<close>

text \<open>
  \<open>acquired block m\<close>: the lock call made in mode \<open>block\<close> returned 0.
  \<open>released m\<close>: the unlock call returned 0.
\<close>

definition acquired :: "int \<Rightarrow> mutex_calls \<Rightarrow> bool" where
  "acquired block m \<longleftrightarrow>
     (if block \<noteq> 0 then pthread_mutex_lock m else pthread_mutex_trylock m) = 0"

definition released :: "mutex_calls \<Rightarrow> bool" where
  "released m \<longleftrightarrow> pthread_mutex_unlock m = 0"

text \<open>The index after \<open>i\<close> in a buffer of \<open>n\<close> slots, as \<open>fq_push\<close> and \<open>fq_pop\<close> step.\<close>

definition wrap_inc :: "32 word \<Rightarrow> 32 word \<Rightarrow> 32 word" where
  "wrap_inc n i = (if i + 1 = n then 0 else i + 1)"

text \<open>
  The invariant of the data model: the buffer is allocated with \<open>max_elements\<close> slots,
  \<open>size \<le> max_elements\<close>, and \<open>front\<close> and \<open>back\<close> are indices of the buffer (a
  buffer of no slots has no index; its queue is never read or written).
\<close>

definition fq_valid :: "function_queue \<Rightarrow> bool" where
  "fq_valid q \<longleftrightarrow>
     (case elements q of None \<Rightarrow> False | Some xs \<Rightarrow> length xs = unat (max_elements q)) \<and>
     size_q q \<le> max_elements q \<and>
     (max_elements q = 0 \<or> front q < max_elements q \<and> back_q q < max_elements q)"

text \<open>The ring invariant: \<open>back\<close> is \<open>size\<close> slots after \<open>front\<close>, modulo the capacity.\<close>

definition fq_wf :: "function_queue \<Rightarrow> bool" where
  "fq_wf q \<longleftrightarrow>
     fq_valid q \<and>
     unat (back_q q) = (unat (front q) + unat (size_q q)) mod unat (max_elements q)"

text \<open>
  The tasks the queue holds, oldest first: the \<open>size\<close> slots after \<open>front\<close>.
\<close>

definition contents :: "function_queue \<Rightarrow> function_queue_element list" where
  "contents q =
     (case elements q of
        None \<Rightarrow> []
      | Some xs \<Rightarrow>
          map (\<lambda>i. xs ! ((unat (front q) + 1 + i) mod unat (max_elements q)))
            [0..<unat (size_q q)])"

subsection \<open>Sequences of calls\<close>

text \<open>
  A caller pushing the tasks \<open>es\<close> one after the other; the result lists what each
  \<open>fq_push\<close> returned. An undefined call makes the whole run undefined.
\<close>

fun fq_push_all ::
  "function_queue \<Rightarrow> function_queue_element list \<Rightarrow> int \<Rightarrow> mutex_calls \<Rightarrow> mutex_calls
   \<Rightarrow> (pt_error list \<times> function_queue) option" where
  "fq_push_all q [] block m mi = Some ([], q)"
| "fq_push_all q (e # es) block m mi =
     (case fq_push q e block m mi of
        None \<Rightarrow> None
      | Some (r, q') \<Rightarrow>
          (case fq_push_all q' es block m mi of
             None \<Rightarrow> None
           | Some (rs, q'') \<Rightarrow> Some (r # rs, q'')))"

text \<open>
  A caller popping \<open>n\<close> times into the same variable \<open>e\<close>; the result lists, for each
  \<open>fq_pop\<close>, what it returned and the value of \<open>e\<close> after it.
\<close>

fun fq_pop_n ::
  "nat \<Rightarrow> function_queue \<Rightarrow> function_queue_element \<Rightarrow> int \<Rightarrow> mutex_calls \<Rightarrow> mutex_calls
   \<Rightarrow> ((pt_error \<times> function_queue_element) list \<times> function_queue) option" where
  "fq_pop_n 0 q e block m mi = Some ([], q)"
| "fq_pop_n (Suc n) q e block m mi =
     (case fq_pop q e block m mi of
        None \<Rightarrow> None
      | Some (r, q', e') \<Rightarrow>
          (case fq_pop_n n q' e' block m mi of
             None \<Rightarrow> None
           | Some (rs, q'') \<Rightarrow> Some ((r, e') # rs, q'')))"

text \<open>The same for \<open>n\<close> calls of \<open>fq_peek\<close>.\<close>

fun fq_peek_n ::
  "nat \<Rightarrow> function_queue \<Rightarrow> function_queue_element \<Rightarrow> int \<Rightarrow> mutex_calls \<Rightarrow> mutex_calls
   \<Rightarrow> ((pt_error \<times> function_queue_element) list \<times> function_queue) option" where
  "fq_peek_n 0 q e block m mi = Some ([], q)"
| "fq_peek_n (Suc n) q e block m mi =
     (case fq_peek q e block m mi of
        None \<Rightarrow> None
      | Some (r, q', e') \<Rightarrow>
          (case fq_peek_n n q' e' block m mi of
             None \<Rightarrow> None
           | Some (rs, q'') \<Rightarrow> Some ((r, e') # rs, q'')))"

text \<open>
  A caller alternating push and pop: for each task of \<open>es\<close> one \<open>fq_push\<close>, then one
  \<open>fq_pop\<close> into \<open>e\<close>. The result lists, for each round, what the push returned, what
  the pop returned and the value of \<open>e\<close> after the pop.
\<close>

fun fq_alternate ::
  "function_queue \<Rightarrow> function_queue_element list \<Rightarrow> function_queue_element \<Rightarrow> int
   \<Rightarrow> mutex_calls \<Rightarrow> mutex_calls
   \<Rightarrow> ((pt_error \<times> pt_error \<times> function_queue_element) list \<times> function_queue) option" where
  "fq_alternate q [] e block m mi = Some ([], q)"
| "fq_alternate q (t # ts) e block m mi =
     (case fq_push q t block m mi of
        None \<Rightarrow> None
      | Some (r1, q1) \<Rightarrow>
          (case fq_pop q1 e block m mi of
             None \<Rightarrow> None
           | Some (r2, q2, e') \<Rightarrow>
               (case fq_alternate q2 ts e' block m mi of
                  None \<Rightarrow> None
                | Some (rs, q3) \<Rightarrow> Some ((r1, r2, e') # rs, q3))))"

text \<open>
  Any mix of pushes and pops, each call with its own mode and its own lock results.
  \<open>fq_calls\<close> returns the state of the queue after each call.
\<close>

datatype call =
  Push function_queue_element int mutex_calls mutex_calls
  | Pop function_queue_element int mutex_calls mutex_calls

fun fq_call :: "function_queue \<Rightarrow> call \<Rightarrow> function_queue option" where
  "fq_call q (Push e block m mi) = map_option snd (fq_push q e block m mi)"
| "fq_call q (Pop e block m mi) = map_option (\<lambda>(r, q', e'). q') (fq_pop q e block m mi)"

fun fq_calls :: "function_queue \<Rightarrow> call list \<Rightarrow> function_queue list option" where
  "fq_calls q [] = Some []"
| "fq_calls q (c # cs) =
     (case fq_call q c of
        None \<Rightarrow> None
      | Some q' \<Rightarrow>
          (case fq_calls q' cs of
             None \<Rightarrow> None
           | Some qs \<Rightarrow> Some (q' # qs)))"

text \<open>
  The mutex is recursive: the thread that holds it acquires it again. For one call this
  says that when its own lock call succeeded, the lock call of the nested query did too.
\<close>

fun reentrant :: "call \<Rightarrow> bool" where
  "reentrant (Push e block m mi) = (acquired block m \<longrightarrow> acquired block mi)"
| "reentrant (Pop e block m mi) = (acquired block m \<longrightarrow> acquired block mi)"

text \<open>Sample inputs: a task, and calls on the mutex that all return 0.\<close>

abbreviation task :: "nat \<Rightarrow> function_queue_element" where
  "task n \<equiv> \<lparr>func = n, arg = n\<rparr>"

abbreviation ok_calls :: mutex_calls where
  "ok_calls \<equiv> \<lparr>pthread_mutex_lock = 0, pthread_mutex_trylock = 0, pthread_mutex_unlock = 0\<rparr>"

text \<open>
  A block as \<open>malloc\<close> may return it, here with every slot zero, and an environment in
  which every call of \<open>fq_init\<close> succeeds and \<open>malloc\<close> returns that block.
\<close>

definition zero_block :: "nat \<Rightarrow> function_queue_element" where
  "zero_block i = \<lparr>func = 0, arg = 0\<rparr>"

abbreviation ok_init :: init_calls where
  "ok_init \<equiv> \<lparr>pthread_once = 0, pthread_mutexattr_init = 0, pthread_mutexattr_settype = 0,
     pthread_mutex_init = 0, malloc = Some zero_block, pthread_mutex_destroy = 0\<rparr>"

section \<open>Properties\<close>

subsection \<open>Index arithmetic\<close>

lemma unat_inc: "(s::32 word) < n \<Longrightarrow> unat (s + 1) = unat s + 1"
proof -
  assume "s < n"
  then have "unat s < unat n" by (simp add: word_less_nat_alt)
  moreover have "unat n < 2 ^ 32" using unsigned_less[of n, where 'a = nat] by simp
  ultimately have "unat s + 1 < 2 ^ 32" by arith
  then show ?thesis by (simp add: unat_word_ariths)
qed

lemma unat_dec: "(s::32 word) \<noteq> 0 \<Longrightarrow> unat (s - 1) = unat s - 1"
  by (simp add: unat_minus_one)

lemma inc_eq_iff: "(i::32 word) < n \<Longrightarrow> i + 1 = n \<longleftrightarrow> unat i + 1 = unat n"
  using unat_inc[of i n] by (auto simp: word_unat_eq_iff)

lemma unat_wrap_inc: "i < n \<Longrightarrow> unat (wrap_inc n i) = (unat i + 1) mod unat n"
proof -
  assume a: "i < n"
  then have l: "unat i < unat n" by (simp add: word_less_nat_alt)
  show ?thesis
  proof (cases "i + 1 = n")
    case True
    then have "unat i + 1 = unat n" using a by (simp add: inc_eq_iff)
    then show ?thesis using True by (simp add: wrap_inc_def)
  next
    case False
    then have "unat i + 1 \<noteq> unat n" using a by (simp add: inc_eq_iff)
    with l have "unat i + 1 < unat n" by arith
    then show ?thesis using False a by (simp add: wrap_inc_def unat_inc)
  qed
qed

lemma wrap_inc_less: "i < n \<Longrightarrow> wrap_inc n i < n"
proof -
  assume a: "i < n"
  then have "0 < unat n" by (simp add: word_less_nat_alt)
  then have "(unat i + 1) mod unat n < unat n" by simp
  then show ?thesis using a by (simp add: word_less_nat_alt unat_wrap_inc)
qed

subsection \<open>One call\<close>

lemma fq_push_step:
  assumes "acquired block m" "elements q = Some xs" "length xs = unat (max_elements q)"
    "back_q q < max_elements q" "size_q q \<noteq> max_elements q"
  shows "fq_push q e block m mi =
     Some (if pthread_mutex_unlock m \<noteq> 0 then PT_EPMU else PT_SUCCESS,
           q\<lparr>size_q := size_q q + 1, back_q := wrap_inc (max_elements q) (back_q q),
             elements := Some (xs[unat (wrap_inc (max_elements q) (back_q q)) := e])\<rparr>)"
proof -
  have "unat (wrap_inc (max_elements q) (back_q q)) < length xs"
    using assms wrap_inc_less[of "back_q q" "max_elements q"] by (simp add: word_less_nat_alt)
  then show ?thesis using assms
    by (cases "back_q q + 1 = max_elements q")
       (simp_all add: fq_push_def fq_is_full_def acquired_def elements_set_def Let_def wrap_inc_def)
qed

lemma fq_push_full:
  assumes "acquired block m" "size_q q = max_elements q"
  shows "fq_push q e block m mi =
     Some (if pthread_mutex_unlock m \<noteq> 0 then PT_EPMU else PT_EFQFULL, q)"
  using assms by (simp add: fq_push_def fq_is_full_def acquired_def Let_def)

lemma fq_push_not_acquired:
  assumes "\<not> acquired block m"
  shows "fq_push q e block m mi = Some (if block = 0 then PT_EPMTL else PT_EPML, q)"
  using assms by (simp add: fq_push_def acquired_def Let_def)

lemma fq_pop_step:
  assumes "acquired block m" "acquired block mi" "elements q = Some xs"
    "length xs = unat (max_elements q)" "front q < max_elements q" "size_q q \<noteq> 0"
  shows "fq_pop q e block m mi =
     Some (if pthread_mutex_unlock m \<noteq> 0 then PT_EPMU else PT_SUCCESS,
           q\<lparr>size_q := size_q q - 1, front := wrap_inc (max_elements q) (front q)\<rparr>,
           xs ! unat (wrap_inc (max_elements q) (front q)))"
proof -
  have "unat (wrap_inc (max_elements q) (front q)) < length xs"
    using assms wrap_inc_less[of "front q" "max_elements q"] by (simp add: word_less_nat_alt)
  then show ?thesis using assms
    by (cases "front q + 1 = max_elements q")
       (simp_all add: fq_pop_def fq_is_empty_def acquired_def elements_at_def Let_def wrap_inc_def)
qed

lemma fq_pop_empty:
  assumes "acquired block m" "acquired block mi" "size_q q = 0"
  shows "fq_pop q e block m mi =
     Some (if pthread_mutex_unlock m \<noteq> 0 then PT_EPMU else PT_EFQEMPTY, q, e)"
  using assms by (simp add: fq_pop_def fq_is_empty_def acquired_def Let_def)

lemma fq_pop_not_acquired:
  assumes "\<not> acquired block m"
  shows "fq_pop q e block m mi = Some (if block = 0 then PT_EPMTL else PT_EPML, q, e)"
  using assms by (simp add: fq_pop_def acquired_def Let_def)

lemma fq_peek_step:
  assumes "acquired block mi" "elements q = Some xs"
    "length xs = unat (max_elements q)" "front q < max_elements q" "size_q q \<noteq> 0"
  shows "fq_peek q e block m mi =
     Some (if pthread_mutex_unlock m \<noteq> 0 then PT_EPMU else PT_SUCCESS, q,
           xs ! unat (wrap_inc (max_elements q) (front q)))"
proof -
  have "unat (wrap_inc (max_elements q) (front q)) < length xs"
    using assms wrap_inc_less[of "front q" "max_elements q"] by (simp add: word_less_nat_alt)
  then show ?thesis using assms
    by (cases "front q + 1 = max_elements q")
       (simp_all add: fq_peek_def fq_is_empty_def acquired_def elements_at_def Let_def wrap_inc_def)
qed

lemma fq_peek_empty:
  assumes "acquired block mi" "size_q q = 0"
  shows "fq_peek q e block m mi =
     Some (if pthread_mutex_unlock m \<noteq> 0 then PT_EPMU else PT_EFQEMPTY, q, e)"
  using assms by (simp add: fq_peek_def fq_is_empty_def acquired_def Let_def)

lemma valid_elements:
  "fq_valid q \<Longrightarrow> \<exists>xs. elements q = Some xs \<and> length xs = unat (max_elements q)"
  by (auto simp: fq_valid_def split: option.splits)

lemma valid_indices:
  "fq_valid q \<Longrightarrow> max_elements q \<noteq> 0 \<Longrightarrow> front q < max_elements q \<and> back_q q < max_elements q"
  by (auto simp: fq_valid_def)

subsection \<open>Push\<close>

text \<open>
  Claim C3. When the lock is acquired and released without error: on a queue with
  \<open>size = max_elements\<close>, \<open>fq_push\<close> returns \<open>PT_EFQFULL\<close> and the queue is the one
  it was (size, front, back and every slot). On a valid queue with
  \<open>size < max_elements\<close> it returns \<open>PT_SUCCESS\<close>, \<open>size\<close> is one more, \<open>back\<close> is
  \<open>(back + 1) mod max_elements\<close>, the slot at the new \<open>back\<close> holds the task, and
  every other slot, \<open>front\<close> and \<open>max_elements\<close> are as before.
\<close>

theorem fq_push_full_or_stored:
  assumes "acquired block m" and "released m"
  shows "(size_q q = max_elements q \<longrightarrow> fq_push q e block m mi = Some (PT_EFQFULL, q)) \<and>
    (fq_valid q \<and> size_q q < max_elements q \<longrightarrow>
      (\<exists>q'. fq_push q e block m mi = Some (PT_SUCCESS, q') \<and>
         unat (size_q q') = unat (size_q q) + 1 \<and>
         unat (back_q q') = (unat (back_q q) + 1) mod unat (max_elements q) \<and>
         elements_at q' (back_q q') = Some e \<and>
         (\<forall>i. i \<noteq> back_q q' \<longrightarrow> elements_at q' i = elements_at q i) \<and>
         front q' = front q \<and> max_elements q' = max_elements q))"
proof (intro conjI impI)
  assume "size_q q = max_elements q"
  then show "fq_push q e block m mi = Some (PT_EFQFULL, q)"
    using assms by (simp add: fq_push_full released_def)
next
  assume a: "fq_valid q \<and> size_q q < max_elements q"
  then obtain xs where xs: "elements q = Some xs" "length xs = unat (max_elements q)"
    using valid_elements by blast
  from a have nz: "max_elements q \<noteq> 0" by auto
  with a have b: "back_q q < max_elements q" using valid_indices by blast
  let ?b = "wrap_inc (max_elements q) (back_q q)"
  let ?q = "q\<lparr>size_q := size_q q + 1, back_q := ?b, elements := Some (xs[unat ?b := e])\<rparr>"
  have bl: "unat ?b < length xs"
    using b xs wrap_inc_less[of "back_q q" "max_elements q"] by (simp add: word_less_nat_alt)
  from a have ne: "size_q q \<noteq> max_elements q" by auto
  have "fq_push q e block m mi = Some (PT_SUCCESS, ?q)"
    using assms fq_push_step[OF assms(1) xs b ne] by (simp add: released_def)
  moreover have "unat (size_q ?q) = unat (size_q q) + 1"
    using a unat_inc[of "size_q q" "max_elements q"] by simp
  moreover have "unat (back_q ?q) = (unat (back_q q) + 1) mod unat (max_elements q)"
    using unat_wrap_inc[OF b] by simp
  moreover have "elements_at ?q (back_q ?q) = Some e"
    using bl by (simp add: elements_at_def)
  moreover have "\<forall>i. i \<noteq> back_q ?q \<longrightarrow> elements_at ?q i = elements_at q i"
    using xs by (auto simp: elements_at_def word_unat_eq_iff)
  ultimately show "\<exists>q'. fq_push q e block m mi = Some (PT_SUCCESS, q') \<and>
         unat (size_q q') = unat (size_q q) + 1 \<and>
         unat (back_q q') = (unat (back_q q) + 1) mod unat (max_elements q) \<and>
         elements_at q' (back_q q') = Some e \<and>
         (\<forall>i. i \<noteq> back_q q' \<longrightarrow> elements_at q' i = elements_at q i) \<and>
         front q' = front q \<and> max_elements q' = max_elements q"
    by (intro exI[of _ ?q]) simp
qed

theorem fq_push_full_or_stored_witness:
  "fq_push \<lparr>elements = Some [task 1, task 2], front = 0, back_q = 0, size_q = 2,
             max_elements = 2\<rparr> (task 3) 1 ok_calls ok_calls =
     Some (PT_EFQFULL, \<lparr>elements = Some [task 1, task 2], front = 0, back_q = 0, size_q = 2,
             max_elements = 2\<rparr>) \<and>
   (\<exists>q'. fq_push \<lparr>elements = Some [task 0, task 0], front = 0, back_q = 0, size_q = 0,
             max_elements = 2\<rparr> (task 3) 0 ok_calls ok_calls = Some (PT_SUCCESS, q') \<and>
         unat (size_q q') = 1 \<and> unat (back_q q') = 1 \<and>
         elements_at q' (back_q q') = Some (task 3))"
  using fq_push_full_or_stored [of 1 ok_calls
      "\<lparr>elements = Some [task 1, task 2], front = 0, back_q = 0, size_q = 2, max_elements = 2\<rparr>"
      "task 3" ok_calls]
    fq_push_full_or_stored [of 0 ok_calls
      "\<lparr>elements = Some [task 0, task 0], front = 0, back_q = 0, size_q = 0, max_elements = 2\<rparr>"
      "task 3" ok_calls]
  by (simp add: acquired_def released_def fq_valid_def) blast

subsection \<open>Pop\<close>

text \<open>
  Claim C4. When the lock is acquired and released without error, and the nested
  \<open>fq_is_empty\<close> acquires it again: on a queue with \<open>size = 0\<close>, \<open>fq_pop\<close> returns
  \<open>PT_EFQEMPTY\<close>, and the queue and \<open>*e\<close> are what they were. On a valid queue with
  \<open>size \<noteq> 0\<close> it returns \<open>PT_SUCCESS\<close>, \<open>size\<close> is one less, \<open>front\<close> is
  \<open>(front + 1) mod max_elements\<close>, \<open>*e\<close> is the slot at the new \<open>front\<close>, and the
  buffer, \<open>back\<close> and \<open>max_elements\<close> are as before.
\<close>

theorem fq_pop_empty_or_taken:
  assumes "acquired block m" and "released m" and "acquired block mi"
  shows "(size_q q = 0 \<longrightarrow> fq_pop q e block m mi = Some (PT_EFQEMPTY, q, e)) \<and>
    (fq_valid q \<and> size_q q \<noteq> 0 \<longrightarrow>
      (\<exists>q' e'. fq_pop q e block m mi = Some (PT_SUCCESS, q', e') \<and>
         unat (size_q q') = unat (size_q q) - 1 \<and>
         unat (front q') = (unat (front q) + 1) mod unat (max_elements q) \<and>
         elements_at q (front q') = Some e' \<and>
         elements q' = elements q \<and> back_q q' = back_q q \<and>
         max_elements q' = max_elements q))"
proof (intro conjI impI)
  assume "size_q q = 0"
  then show "fq_pop q e block m mi = Some (PT_EFQEMPTY, q, e)"
    using assms by (simp add: fq_pop_empty released_def)
next
  assume a: "fq_valid q \<and> size_q q \<noteq> 0"
  then obtain xs where xs: "elements q = Some xs" "length xs = unat (max_elements q)"
    using valid_elements by blast
  from a have nz: "max_elements q \<noteq> 0" by (auto simp: fq_valid_def)
  with a have f: "front q < max_elements q" using valid_indices by blast
  let ?f = "wrap_inc (max_elements q) (front q)"
  let ?q = "q\<lparr>size_q := size_q q - 1, front := ?f\<rparr>"
  have fl: "unat ?f < length xs"
    using f xs wrap_inc_less[of "front q" "max_elements q"] by (simp add: word_less_nat_alt)
  from a have ne: "size_q q \<noteq> 0" by simp
  have "fq_pop q e block m mi = Some (PT_SUCCESS, ?q, xs ! unat ?f)"
    using assms fq_pop_step[OF assms(1) assms(3) xs f ne] by (simp add: released_def)
  moreover have "unat (size_q ?q) = unat (size_q q) - 1"
    using a unat_dec[of "size_q q"] by simp
  moreover have "unat (front ?q) = (unat (front q) + 1) mod unat (max_elements q)"
    using unat_wrap_inc[OF f] by simp
  moreover have "elements_at q (front ?q) = Some (xs ! unat ?f)"
    using fl xs by (simp add: elements_at_def)
  ultimately show "\<exists>q' e'. fq_pop q e block m mi = Some (PT_SUCCESS, q', e') \<and>
         unat (size_q q') = unat (size_q q) - 1 \<and>
         unat (front q') = (unat (front q) + 1) mod unat (max_elements q) \<and>
         elements_at q (front q') = Some e' \<and>
         elements q' = elements q \<and> back_q q' = back_q q \<and>
         max_elements q' = max_elements q"
    by (intro exI[of _ ?q] exI[of _ "xs ! unat ?f"]) simp
qed

theorem fq_pop_empty_or_taken_witness:
  "fq_pop \<lparr>elements = Some [task 1, task 2], front = 1, back_q = 1, size_q = 0,
            max_elements = 2\<rparr> (task 9) 1 ok_calls ok_calls =
     Some (PT_EFQEMPTY, \<lparr>elements = Some [task 1, task 2], front = 1, back_q = 1, size_q = 0,
            max_elements = 2\<rparr>, task 9) \<and>
   (\<exists>q' e'. fq_pop \<lparr>elements = Some [task 1, task 2], front = 1, back_q = 0, size_q = 1,
            max_elements = 2\<rparr> (task 9) 0 ok_calls ok_calls = Some (PT_SUCCESS, q', e') \<and>
         unat (size_q q') = 0 \<and> unat (front q') = 0 \<and> e' = task 1)"
  using fq_pop_empty_or_taken [of 1 ok_calls ok_calls
      "\<lparr>elements = Some [task 1, task 2], front = 1, back_q = 1, size_q = 0, max_elements = 2\<rparr>"
      "task 9"]
    fq_pop_empty_or_taken [of 0 ok_calls ok_calls
      "\<lparr>elements = Some [task 1, task 2], front = 1, back_q = 0, size_q = 1, max_elements = 2\<rparr>"
      "task 9"]
  by (auto simp: acquired_def released_def fq_valid_def elements_at_def)

subsection \<open>Peek\<close>

lemma fq_peek_n_unchanged:
  assumes "\<And>e. fq_peek q e block m mi = Some (PT_SUCCESS, q, t)"
  shows "fq_peek_n n q e block m mi = Some (replicate n (PT_SUCCESS, t), q)"
  using assms by (induction n arbitrary: e) simp_all

text \<open>
  Claim C6. On a valid queue with \<open>size \<noteq> 0\<close>, when the nested \<open>fq_is_empty\<close> acquires
  the lock and the unlock returns 0, \<open>fq_peek\<close> returns \<open>PT_SUCCESS\<close>, sets \<open>*e\<close> to
  the slot at \<open>(front + 1) mod max_elements\<close> and leaves the queue as it was; so do
  \<open>n\<close> calls in a row, for every \<open>n\<close>; and a \<open>fq_pop\<close> on that queue (its lock calls and
  its unlock returning 0) returns the same task.
\<close>

theorem fq_peek_is_next_pop:
  assumes "fq_valid q" and "size_q q \<noteq> 0" and "elements q = Some xs"
    and "released m" and "acquired block mi"
    and "acquired block' m'" and "released m'" and "acquired block' mi'"
    and "t = xs ! ((unat (front q) + 1) mod unat (max_elements q))"
  shows "fq_peek q e block m mi = Some (PT_SUCCESS, q, t) \<and>
    fq_peek_n n q e block m mi = Some (replicate n (PT_SUCCESS, t), q) \<and>
    (\<exists>q'. fq_pop q e' block' m' mi' = Some (PT_SUCCESS, q', t))"
proof -
  from assms have len: "length xs = unat (max_elements q)"
    by (simp add: fq_valid_def)
  from assms have "max_elements q \<noteq> 0" by (auto simp: fq_valid_def)
  with assms have f: "front q < max_elements q" using valid_indices by blast
  have t: "t = xs ! unat (wrap_inc (max_elements q) (front q))"
    using assms unat_wrap_inc[OF f] by simp
  have peek: "fq_peek q e0 block m mi = Some (PT_SUCCESS, q, t)" for e0
    using fq_peek_step[OF assms(5) assms(3) len f assms(2), of e0 m] assms(4) t
    by (simp add: released_def)
  have pop: "fq_pop q e' block' m' mi' =
      Some (PT_SUCCESS, q\<lparr>size_q := size_q q - 1,
              front := wrap_inc (max_elements q) (front q)\<rparr>, t)"
    using fq_pop_step[OF assms(6) assms(8) assms(3) len f assms(2), of e'] assms(7) t
    by (simp add: released_def)
  show ?thesis
    using peek pop fq_peek_n_unchanged[of q block m mi t n e] by simp
qed

theorem fq_peek_is_next_pop_witness:
  "fq_peek \<lparr>elements = Some [task 1, task 2, task 3], front = 2, back_q = 1, size_q = 2,
      max_elements = 3\<rparr> (task 9) 1 ok_calls ok_calls =
     Some (PT_SUCCESS, \<lparr>elements = Some [task 1, task 2, task 3], front = 2, back_q = 1,
      size_q = 2, max_elements = 3\<rparr>, task 1) \<and>
   fq_peek_n 3 \<lparr>elements = Some [task 1, task 2, task 3], front = 2, back_q = 1, size_q = 2,
      max_elements = 3\<rparr> (task 9) 1 ok_calls ok_calls =
     Some (replicate 3 (PT_SUCCESS, task 1),
       \<lparr>elements = Some [task 1, task 2, task 3], front = 2, back_q = 1,
      size_q = 2, max_elements = 3\<rparr>) \<and>
   (\<exists>q'. fq_pop \<lparr>elements = Some [task 1, task 2, task 3], front = 2, back_q = 1, size_q = 2,
      max_elements = 3\<rparr> (task 8) 0 ok_calls ok_calls = Some (PT_SUCCESS, q', task 1))"
  using fq_peek_is_next_pop [where block = 1 and m = ok_calls and mi = ok_calls
      and block' = 0 and m' = ok_calls and mi' = ok_calls and n = 3
      and xs = "[task 1, task 2, task 3]" and t = "task 1" and e = "task 9" and e' = "task 8"
      and q = "\<lparr>elements = Some [task 1, task 2, task 3], front = 2, back_q = 1, size_q = 2,
      max_elements = 3\<rparr>"]
  by (simp add: acquired_def released_def fq_valid_def)

subsection \<open>A failing unlock\<close>

text \<open>
  Claim C10. When the unlock that ends the critical section returns an error,
  \<open>fq_push\<close>, \<open>fq_pop\<close> and \<open>fq_peek\<close> do to the queue and to \<open>*e\<close> what they do when
  it returns 0, and return \<open>PT_EPMU\<close> in place of whatever the critical section had
  set: in place of \<open>PT_EFQFULL\<close> and \<open>PT_EFQEMPTY\<close>, and in place of \<open>PT_SUCCESS\<close>
  after a push that stored its task or a pop that took one.
\<close>

theorem unlock_failure_masks_result:
  assumes "\<not> released m"
  shows
   "(acquired block m \<longrightarrow>
       fq_push q e block m mi =
         map_option (\<lambda>(r, q'). (PT_EPMU, q'))
           (fq_push q e block (m\<lparr>pthread_mutex_unlock := 0\<rparr>) mi)) \<and>
    (acquired block m \<longrightarrow>
       fq_pop q e block m mi =
         map_option (\<lambda>(r, q', e'). (PT_EPMU, q', e'))
           (fq_pop q e block (m\<lparr>pthread_mutex_unlock := 0\<rparr>) mi)) \<and>
    fq_peek q e block m mi =
         map_option (\<lambda>(r, q', e'). (PT_EPMU, q', e'))
           (fq_peek q e block (m\<lparr>pthread_mutex_unlock := 0\<rparr>) mi) \<and>
    (acquired block m \<and> size_q q = max_elements q \<longrightarrow>
       fq_push q e block m mi = Some (PT_EPMU, q)) \<and>
    (acquired block m \<and> acquired block mi \<and> size_q q = 0 \<longrightarrow>
       fq_pop q e block m mi = Some (PT_EPMU, q, e)) \<and>
    (acquired block mi \<and> size_q q = 0 \<longrightarrow>
       fq_peek q e block m mi = Some (PT_EPMU, q, e)) \<and>
    (acquired block m \<and> fq_valid q \<and> size_q q < max_elements q \<longrightarrow>
       (\<exists>q'. fq_push q e block m mi = Some (PT_EPMU, q') \<and>
          unat (size_q q') = unat (size_q q) + 1 \<and>
          elements_at q' (back_q q') = Some e)) \<and>
    (acquired block m \<and> acquired block mi \<and> fq_valid q \<and> size_q q \<noteq> 0 \<longrightarrow>
       (\<exists>q' e'. fq_pop q e block m mi = Some (PT_EPMU, q', e') \<and>
          unat (size_q q') = unat (size_q q) - 1 \<and>
          elements_at q (front q') = Some e'))"
proof (intro conjI impI)
  assume "acquired block m"
  then show "fq_push q e block m mi =
         map_option (\<lambda>(r, q'). (PT_EPMU, q'))
           (fq_push q e block (m\<lparr>pthread_mutex_unlock := 0\<rparr>) mi)"
    using assms
    by (auto simp: fq_push_def Let_def acquired_def released_def split: option.splits)
next
  assume "acquired block m"
  then show "fq_pop q e block m mi =
         map_option (\<lambda>(r, q', e'). (PT_EPMU, q', e'))
           (fq_pop q e block (m\<lparr>pthread_mutex_unlock := 0\<rparr>) mi)"
    using assms
    by (auto simp: fq_pop_def Let_def acquired_def released_def split: option.splits)
next
  show "fq_peek q e block m mi =
         map_option (\<lambda>(r, q', e'). (PT_EPMU, q', e'))
           (fq_peek q e block (m\<lparr>pthread_mutex_unlock := 0\<rparr>) mi)"
    using assms
    by (auto simp: fq_peek_def Let_def released_def split: option.splits)
next
  assume "acquired block m \<and> size_q q = max_elements q"
  then show "fq_push q e block m mi = Some (PT_EPMU, q)"
    using assms by (simp add: fq_push_full released_def)
next
  assume "acquired block m \<and> acquired block mi \<and> size_q q = 0"
  then show "fq_pop q e block m mi = Some (PT_EPMU, q, e)"
    using assms by (simp add: fq_pop_empty released_def)
next
  assume "acquired block mi \<and> size_q q = 0"
  then show "fq_peek q e block m mi = Some (PT_EPMU, q, e)"
    using assms by (simp add: fq_peek_empty released_def)
next
  assume a: "acquired block m \<and> fq_valid q \<and> size_q q < max_elements q"
  then obtain xs where xs: "elements q = Some xs" "length xs = unat (max_elements q)"
    using valid_elements by blast
  from a have "max_elements q \<noteq> 0" by auto
  with a have b: "back_q q < max_elements q" using valid_indices by blast
  from a have ne: "size_q q \<noteq> max_elements q" and acq: "acquired block m" by auto
  have bl: "unat (wrap_inc (max_elements q) (back_q q)) < length xs"
    using xs wrap_inc_less[OF b] by (simp add: word_less_nat_alt)
  show "\<exists>q'. fq_push q e block m mi = Some (PT_EPMU, q') \<and>
          unat (size_q q') = unat (size_q q) + 1 \<and>
          elements_at q' (back_q q') = Some e"
    using assms fq_push_step[OF acq xs b ne, of e mi] bl a
      unat_inc[of "size_q q" "max_elements q"]
    by (simp add: released_def elements_at_def)
next
  assume a: "acquired block m \<and> acquired block mi \<and> fq_valid q \<and> size_q q \<noteq> 0"
  then obtain xs where xs: "elements q = Some xs" "length xs = unat (max_elements q)"
    using valid_elements by blast
  from a have "max_elements q \<noteq> 0" by (auto simp: fq_valid_def)
  with a have f: "front q < max_elements q" using valid_indices by blast
  from a have ne: "size_q q \<noteq> 0" and acq: "acquired block m" "acquired block mi" by auto
  have fl: "unat (wrap_inc (max_elements q) (front q)) < length xs"
    using xs wrap_inc_less[OF f] by (simp add: word_less_nat_alt)
  show "\<exists>q' e'. fq_pop q e block m mi = Some (PT_EPMU, q', e') \<and>
          unat (size_q q') = unat (size_q q) - 1 \<and>
          elements_at q (front q') = Some e'"
    using assms fq_pop_step[OF acq xs f ne, of e] fl xs unat_dec[OF ne]
    by (simp add: released_def elements_at_def)
qed


theorem unlock_failure_masks_result_witness:
  "fq_push \<lparr>elements = Some [task 1, task 2], front = 0, back_q = 0, size_q = 2,
             max_elements = 2\<rparr> (task 3) 1
      \<lparr>pthread_mutex_lock = 0, pthread_mutex_trylock = 0, pthread_mutex_unlock = 1\<rparr> ok_calls =
     Some (PT_EPMU, \<lparr>elements = Some [task 1, task 2], front = 0, back_q = 0, size_q = 2,
             max_elements = 2\<rparr>) \<and>
   fq_pop \<lparr>elements = Some [task 1, task 2], front = 0, back_q = 0, size_q = 0,
             max_elements = 2\<rparr> (task 9) 1
      \<lparr>pthread_mutex_lock = 0, pthread_mutex_trylock = 0, pthread_mutex_unlock = 1\<rparr> ok_calls =
     Some (PT_EPMU, \<lparr>elements = Some [task 1, task 2], front = 0, back_q = 0, size_q = 0,
             max_elements = 2\<rparr>, task 9) \<and>
   fq_peek \<lparr>elements = Some [task 1, task 2], front = 0, back_q = 0, size_q = 0,
             max_elements = 2\<rparr> (task 9) 1
      \<lparr>pthread_mutex_lock = 0, pthread_mutex_trylock = 0, pthread_mutex_unlock = 1\<rparr> ok_calls =
     Some (PT_EPMU, \<lparr>elements = Some [task 1, task 2], front = 0, back_q = 0, size_q = 0,
             max_elements = 2\<rparr>, task 9) \<and>
   (\<exists>q'. fq_push \<lparr>elements = Some [task 1, task 2], front = 0, back_q = 0, size_q = 0,
             max_elements = 2\<rparr> (task 3) 1
      \<lparr>pthread_mutex_lock = 0, pthread_mutex_trylock = 0, pthread_mutex_unlock = 1\<rparr> ok_calls =
        Some (PT_EPMU, q') \<and> unat (size_q q') = 1 \<and>
        elements_at q' (back_q q') = Some (task 3))"
proof -
  have nr: "\<not> released
      \<lparr>pthread_mutex_lock = 0, pthread_mutex_trylock = 0, pthread_mutex_unlock = 1\<rparr>"
    by (simp add: released_def)
  show ?thesis
    using unlock_failure_masks_result [OF nr, where block = 1 and mi = ok_calls
        and q = "\<lparr>elements = Some [task 1, task 2], front = 0, back_q = 0,
          size_q = 2, max_elements = 2\<rparr>" and e = "task 3",
        THEN conjunct2, THEN conjunct2, THEN conjunct2]
      unlock_failure_masks_result [OF nr, where block = 1 and mi = ok_calls
        and q = "\<lparr>elements = Some [task 1, task 2], front = 0, back_q = 0,
          size_q = 0, max_elements = 2\<rparr>" and e = "task 9",
        THEN conjunct2, THEN conjunct2, THEN conjunct2]
      unlock_failure_masks_result [OF nr, where block = 1 and mi = ok_calls
        and q = "\<lparr>elements = Some [task 1, task 2], front = 0, back_q = 0,
          size_q = 0, max_elements = 2\<rparr>" and e = "task 3",
        THEN conjunct2, THEN conjunct2, THEN conjunct2]
    by (simp add: acquired_def fq_valid_def)
qed

subsection \<open>A failing lock in \<open>fq_peek\<close> and \<open>fq_is_full\<close>\<close>

text \<open>
  Neither function looks at what its lock call returned, so neither ever returns
  \<open>PT_EPMTL\<close> or \<open>PT_EPML\<close>.
\<close>

lemma fq_peek_never_lock_failed:
  "fq_peek q e block m mi \<noteq> Some (PT_EPMTL, q', e') \<and>
   fq_peek q e block m mi \<noteq> Some (PT_EPML, q', e')"
  by (auto simp: fq_peek_def Let_def split: option.splits if_splits)

lemma fq_is_full_never_lock_failed:
  "fq_is_full q i block m =
     (if pthread_mutex_unlock m \<noteq> 0 then PT_EPMU else PT_SUCCESS,
      if size_q q = max_elements q then 1 else 0)"
  by (simp add: fq_is_full_def Let_def)

text \<open>
  Claim C1 says that \<open>fq_peek\<close> and \<open>fq_is_full\<close> return \<open>PT_EPMTL\<close> (try) or
  \<open>PT_EPML\<close> (blocking) when the lock is not acquired, without reading the queue. The
  code does otherwise. A \<open>fq_peek\<close> whose \<open>pthread_mutex_trylock\<close> returns \<open>EBUSY\<close>
  (16), for itself and for the nested \<open>fq_is_empty\<close>, and whose unlock returns
  \<open>EPERM\<close> (1), reads the slot after \<open>front\<close> into \<open>*e\<close> and returns \<open>PT_EPMU\<close>, on
  a queue of one task and on an empty queue alike. A blocking \<open>fq_peek\<close> whose
  \<open>pthread_mutex_lock\<close> returns \<open>EINVAL\<close> (22) returns \<open>PT_SUCCESS\<close> with the task.
  \<open>fq_is_full\<close> in the same two situations reports \<open>size = max_elements\<close> and returns
  \<open>PT_EPMU\<close> and \<open>PT_SUCCESS\<close>.
\<close>

theorem fq_peek_fq_is_full_enter_without_lock:
  "fq_peek \<lparr>elements = Some [task 1, task 2], front = 0, back_q = 1, size_q = 1, max_elements = 2\<rparr>
      (task 9) 0
      \<lparr>pthread_mutex_lock = 0, pthread_mutex_trylock = 16, pthread_mutex_unlock = 1\<rparr>
      \<lparr>pthread_mutex_lock = 0, pthread_mutex_trylock = 16, pthread_mutex_unlock = 1\<rparr> =
     Some (PT_EPMU,
       \<lparr>elements = Some [task 1, task 2], front = 0, back_q = 1, size_q = 1, max_elements = 2\<rparr>,
       task 2) \<and>
   fq_peek \<lparr>elements = Some [task 1, task 2], front = 0, back_q = 1, size_q = 1, max_elements = 2\<rparr>
      (task 9) 1
      \<lparr>pthread_mutex_lock = 22, pthread_mutex_trylock = 0, pthread_mutex_unlock = 0\<rparr>
      ok_calls =
     Some (PT_SUCCESS,
       \<lparr>elements = Some [task 1, task 2], front = 0, back_q = 1, size_q = 1, max_elements = 2\<rparr>,
       task 2) \<and>
   fq_peek \<lparr>elements = Some [task 1, task 2], front = 0, back_q = 0, size_q = 0, max_elements = 2\<rparr>
      (task 9) 0
      \<lparr>pthread_mutex_lock = 0, pthread_mutex_trylock = 16, pthread_mutex_unlock = 1\<rparr>
      \<lparr>pthread_mutex_lock = 0, pthread_mutex_trylock = 16, pthread_mutex_unlock = 1\<rparr> =
     Some (PT_EPMU,
       \<lparr>elements = Some [task 1, task 2], front = 0, back_q = 0, size_q = 0, max_elements = 2\<rparr>,
       task 2) \<and>
   fq_is_full \<lparr>elements = Some [task 1, task 2], front = 0, back_q = 1, size_q = 1, max_elements = 2\<rparr>
      0 0 \<lparr>pthread_mutex_lock = 0, pthread_mutex_trylock = 16, pthread_mutex_unlock = 1\<rparr> =
     (PT_EPMU, 0) \<and>
   fq_is_full \<lparr>elements = Some [task 1, task 2], front = 0, back_q = 0, size_q = 2, max_elements = 2\<rparr>
      0 1 \<lparr>pthread_mutex_lock = 22, pthread_mutex_trylock = 0, pthread_mutex_unlock = 0\<rparr> =
     (PT_SUCCESS, 1)"
  by (simp add: fq_peek_def fq_is_full_def fq_is_empty_def elements_at_def Let_def)

subsection \<open>The tasks held, as a list\<close>

lemma mod_add_neq:
  assumes "i < j" and "j < (n::nat)"
  shows "(a + i) mod n \<noteq> (a + j) mod n"
proof
  assume "(a + i) mod n = (a + j) mod n"
  then have "n dvd (a + j) - (a + i)"
    using assms by (metis mod_eq_dvd_iff_nat add_le_cancel_left less_imp_le)
  then have "n dvd j - i" by simp
  moreover have "0 < j - i" "j - i < n" using assms by auto
  ultimately show False using nat_dvd_not_less by blast
qed

lemma wf_valid: "fq_wf q \<Longrightarrow> fq_valid q"
  by (simp add: fq_wf_def)

lemma wf_ring:
  "fq_wf q \<Longrightarrow> unat (back_q q) = (unat (front q) + unat (size_q q)) mod unat (max_elements q)"
  by (simp add: fq_wf_def)

lemma valid_size: "fq_valid q \<Longrightarrow> unat (size_q q) \<le> unat (max_elements q)"
  by (simp add: fq_valid_def word_le_nat_alt)

lemma push_state:
  assumes wf: "fq_wf q" and lt: "size_q q < max_elements q" and xs: "elements q = Some xs"
    and q': "q' = q\<lparr>size_q := size_q q + 1, back_q := wrap_inc (max_elements q) (back_q q),
             elements := Some (xs[unat (wrap_inc (max_elements q) (back_q q)) := e])\<rparr>"
  shows "fq_wf q' \<and> contents q' = contents q @ [e] \<and>
         unat (size_q q') = unat (size_q q) + 1"
proof -
  let ?N = "unat (max_elements q)" and ?f = "unat (front q)" and ?s = "unat (size_q q)"
  let ?b' = "unat (wrap_inc (max_elements q) (back_q q))"
  have v: "fq_valid q" using wf by (rule wf_valid)
  have len: "length xs = ?N" using v xs by (simp add: fq_valid_def)
  have nz: "max_elements q \<noteq> 0" using lt by auto
  have fb: "front q < max_elements q" "back_q q < max_elements q"
    using valid_indices[OF v nz] by simp_all
  have s: "?s < ?N" using lt by (simp add: word_less_nat_alt)
  have s': "unat (size_q q + 1) = ?s + 1" using lt by (rule unat_inc)
  have "?b' = (unat (back_q q) + 1) mod ?N" using fb by (simp add: unat_wrap_inc)
  also have "\<dots> = ((?f + ?s) mod ?N + 1) mod ?N" using wf_ring[OF wf] by simp
  also have "\<dots> = (?f + 1 + ?s) mod ?N" by (simp add: mod_Suc_eq)
  finally have b': "?b' = (?f + 1 + ?s) mod ?N" .
  have b'N: "?b' < ?N" using s b' by simp
  have valid': "fq_valid q'"
    using q' len fb s s' wrap_inc_less[OF fb(2)]
    by (simp add: fq_valid_def word_le_nat_alt)
  have ring': "unat (back_q q') = (unat (front q') + unat (size_q q')) mod unat (max_elements q')"
    using q' b' s' by (simp add: add.commute add.left_commute)
  have old: "xs[?b' := e] ! ((?f + 1 + i) mod ?N) = xs ! ((?f + 1 + i) mod ?N)" if "i < ?s" for i
    using mod_add_neq[OF that s, of "?f + 1"] b' by simp
  have new: "xs[?b' := e] ! ((?f + 1 + ?s) mod ?N) = e"
    using b' b'N len by simp
  have "contents q' =
      map (\<lambda>i. xs[?b' := e] ! ((?f + 1 + i) mod ?N)) [0..<?s] @
        [xs[?b' := e] ! ((?f + 1 + ?s) mod ?N)]"
    using q' s' by (simp add: contents_def)
  also have "\<dots> = contents q @ [e]"
    using old new xs by (simp add: contents_def)
  finally have "contents q' = contents q @ [e]" .
  then show ?thesis using valid' ring' q' s' by (simp add: fq_wf_def)
qed

lemma pop_state:
  assumes wf: "fq_wf q" and ne: "size_q q \<noteq> 0" and xs: "elements q = Some xs"
    and q': "q' = q\<lparr>size_q := size_q q - 1, front := wrap_inc (max_elements q) (front q)\<rparr>"
  shows "fq_wf q' \<and> contents q = xs ! unat (wrap_inc (max_elements q) (front q)) # contents q' \<and>
         unat (size_q q') = unat (size_q q) - 1"
proof -
  let ?N = "unat (max_elements q)" and ?f = "unat (front q)" and ?s = "unat (size_q q)"
  let ?f' = "unat (wrap_inc (max_elements q) (front q))"
  have v: "fq_valid q" using wf by (rule wf_valid)
  have sN: "?s \<le> ?N" using v by (rule valid_size)
  have s0: "0 < ?s" using ne by (simp add: unat_gt_0)
  have nz: "max_elements q \<noteq> 0" using sN s0 by auto
  have fb: "front q < max_elements q" "back_q q < max_elements q"
    using valid_indices[OF v nz] by simp_all
  have s': "unat (size_q q - 1) = ?s - 1" using ne by (rule unat_dec)
  have f': "?f' = (?f + 1) mod ?N" using fb by (simp add: unat_wrap_inc)
  have valid': "fq_valid q'"
    using q' v sN s' wrap_inc_less[OF fb(1)] fb
    by (simp add: fq_valid_def word_le_nat_alt split: option.splits)
  have "(?f' + (?s - 1)) mod ?N = (?f + 1 + (?s - 1)) mod ?N"
    unfolding f' by (rule mod_add_left_eq)
  also have "\<dots> = (?f + ?s) mod ?N" using s0 by simp
  finally have ring': "unat (back_q q') = (unat (front q') + unat (size_q q')) mod unat (max_elements q')"
    using q' s' wf_ring[OF wf] by simp
  have shift: "(?f' + 1 + i) mod ?N = (?f + 1 + Suc i) mod ?N" for i
  proof -
    have "(?f' + (1 + i)) mod ?N = (?f + 1 + (1 + i)) mod ?N"
      unfolding f' by (rule mod_add_left_eq)
    then show ?thesis by (simp add: add.assoc)
  qed
  have "[0..<?s] = 0 # map Suc [0..<?s - 1]"
    using s0 by (metis One_nat_def Suc_pred map_Suc_upt upt_conv_Cons)
  then have "contents q =
      xs ! ((?f + 1) mod ?N) # map (\<lambda>i. xs ! ((?f + 1 + Suc i) mod ?N)) [0..<?s - 1]"
    using xs by (simp add: contents_def comp_def)
  also have "\<dots> = xs ! ?f' # contents q'"
    using q' xs s' f' shift by (simp add: contents_def)
  finally have "contents q = xs ! ?f' # contents q'" .
  then show ?thesis using valid' ring' q' s' by (simp add: fq_wf_def)
qed

lemma fq_push_contents:
  assumes wf: "fq_wf q" and lt: "size_q q < max_elements q"
    and acq: "acquired block m" and rel: "released m"
  shows "\<exists>q'. fq_push q e block m mi = Some (PT_SUCCESS, q') \<and> fq_wf q' \<and>
    contents q' = contents q @ [e] \<and> unat (size_q q') = unat (size_q q) + 1 \<and>
    max_elements q' = max_elements q \<and> front q' = front q"
proof -
  have v: "fq_valid q" using wf by (rule wf_valid)
  obtain xs where xs: "elements q = Some xs" "length xs = unat (max_elements q)"
    using valid_elements[OF v] by blast
  have nz: "max_elements q \<noteq> 0" and ne: "size_q q \<noteq> max_elements q" using lt by auto
  have b: "back_q q < max_elements q" using valid_indices[OF v nz] by simp
  let ?q = "q\<lparr>size_q := size_q q + 1, back_q := wrap_inc (max_elements q) (back_q q),
             elements := Some (xs[unat (wrap_inc (max_elements q) (back_q q)) := e])\<rparr>"
  have "fq_push q e block m mi = Some (PT_SUCCESS, ?q)"
    using fq_push_step[OF acq xs b ne, of e mi] rel by (simp add: released_def)
  moreover have "fq_wf ?q \<and> contents ?q = contents q @ [e] \<and>
      unat (size_q ?q) = unat (size_q q) + 1"
    by (rule push_state[OF wf lt xs(1)]) simp
  ultimately show ?thesis by (intro exI[of _ ?q]) simp
qed

lemma fq_pop_contents:
  assumes wf: "fq_wf q" and ne: "size_q q \<noteq> 0"
    and acq: "acquired block m" and rel: "released m" and acqi: "acquired block mi"
  shows "\<exists>q' t. fq_pop q e block m mi = Some (PT_SUCCESS, q', t) \<and> fq_wf q' \<and>
    contents q = t # contents q' \<and> unat (size_q q') = unat (size_q q) - 1 \<and>
    max_elements q' = max_elements q \<and>
    unat (front q') = (unat (front q) + 1) mod unat (max_elements q)"
proof -
  have v: "fq_valid q" using wf by (rule wf_valid)
  obtain xs where xs: "elements q = Some xs" "length xs = unat (max_elements q)"
    using valid_elements[OF v] by blast
  have "0 < unat (size_q q)" using ne by (simp add: unat_gt_0)
  then have nz: "max_elements q \<noteq> 0" using valid_size[OF v] by auto
  have f: "front q < max_elements q" using valid_indices[OF v nz] by simp
  let ?q = "q\<lparr>size_q := size_q q - 1, front := wrap_inc (max_elements q) (front q)\<rparr>"
  let ?t = "xs ! unat (wrap_inc (max_elements q) (front q))"
  have "fq_pop q e block m mi = Some (PT_SUCCESS, ?q, ?t)"
    using fq_pop_step[OF acq acqi xs f ne, of e] rel by (simp add: released_def)
  moreover have "fq_wf ?q \<and> contents q = ?t # contents ?q \<and>
      unat (size_q ?q) = unat (size_q q) - 1"
    by (rule pop_state[OF wf ne xs(1)]) simp
  moreover have "unat (front ?q) = (unat (front q) + 1) mod unat (max_elements q)"
    using unat_wrap_inc[OF f] by simp
  ultimately show ?thesis by (intro exI[of _ ?q] exI[of _ ?t]) simp
qed

lemma contents_empty: "size_q q = 0 \<Longrightarrow> contents q = []"
  by (simp add: contents_def split: option.splits)

lemma length_contents: "fq_valid q \<Longrightarrow> length (contents q) = unat (size_q q)"
  by (auto simp: contents_def fq_valid_def split: option.splits)

lemma fq_push_all_contents:
  assumes "fq_wf q" and "unat (size_q q) + length es \<le> unat (max_elements q)"
    and "acquired block m" and "released m"
  shows "\<exists>q'. fq_push_all q es block m mi = Some (replicate (length es) PT_SUCCESS, q') \<and>
    fq_wf q' \<and> contents q' = contents q @ es \<and>
    unat (size_q q') = unat (size_q q) + length es \<and> max_elements q' = max_elements q"
  using assms
proof (induction es arbitrary: q)
  case Nil
  then show ?case by simp
next
  case (Cons t ts)
  from Cons.prems have "size_q q < max_elements q" by (simp add: word_less_nat_alt)
  from fq_push_contents[OF Cons.prems(1) this Cons.prems(3,4), of t mi]
  obtain q1 where q1: "fq_push q t block m mi = Some (PT_SUCCESS, q1)" "fq_wf q1"
    "contents q1 = contents q @ [t]" "unat (size_q q1) = unat (size_q q) + 1"
    "max_elements q1 = max_elements q" by blast
  have "unat (size_q q1) + length ts \<le> unat (max_elements q1)"
    using q1 Cons.prems(2) by simp
  from Cons.IH[OF q1(2) this Cons.prems(3,4)]
  obtain q2 where q2: "fq_push_all q1 ts block m mi = Some (replicate (length ts) PT_SUCCESS, q2)"
    "fq_wf q2" "contents q2 = contents q1 @ ts"
    "unat (size_q q2) = unat (size_q q1) + length ts" "max_elements q2 = max_elements q1"
    by blast
  show ?case using q1 q2 by simp
qed

lemma fq_pop_n_contents:
  assumes "fq_wf q" and "n \<le> unat (size_q q)"
    and "acquired block m" and "released m" and "acquired block mi"
  shows "\<exists>q'. fq_pop_n n q e block m mi =
      Some (map (Pair PT_SUCCESS) (take n (contents q)), q') \<and>
    fq_wf q' \<and> contents q' = drop n (contents q) \<and>
    unat (size_q q') = unat (size_q q) - n \<and> max_elements q' = max_elements q"
  using assms
proof (induction n arbitrary: q e)
  case 0
  then show ?case by simp
next
  case (Suc n)
  from Suc.prems have "size_q q \<noteq> 0" by auto
  from fq_pop_contents[OF Suc.prems(1) this Suc.prems(3,4,5), of e]
  obtain q1 t where q1: "fq_pop q e block m mi = Some (PT_SUCCESS, q1, t)" "fq_wf q1"
    "contents q = t # contents q1" "unat (size_q q1) = unat (size_q q) - 1"
    "max_elements q1 = max_elements q" by blast
  have "n \<le> unat (size_q q1)" using q1 Suc.prems(2) by simp
  from Suc.IH[OF q1(2) this Suc.prems(3,4,5), of t]
  obtain q2 where q2: "fq_pop_n n q1 t block m mi =
      Some (map (Pair PT_SUCCESS) (take n (contents q1)), q2)"
    "fq_wf q2" "contents q2 = drop n (contents q1)"
    "unat (size_q q2) = unat (size_q q1) - n" "max_elements q2 = max_elements q1"
    by blast
  show ?case using q1 q2 by simp
qed

subsection \<open>First in, first out\<close>

text \<open>
  Claim C2. On a well-formed empty queue of capacity \<open>N\<close>, when every lock and unlock
  call returns 0: pushing \<open>k \<le> N\<close> tasks and then popping \<open>k\<close> times, every push
  and every pop returns \<open>PT_SUCCESS\<close>, and the pops return the tasks in the order they
  were pushed. (The tasks need not be distinct.)
\<close>

theorem fq_pops_return_pushes_in_order:
  assumes "fq_wf q" and "size_q q = 0" and "length es \<le> unat (max_elements q)"
    and "acquired block m" and "released m"
    and "acquired block' m'" and "released m'" and "acquired block' mi'"
  shows "\<exists>q1 q2.
    fq_push_all q es block m mi = Some (replicate (length es) PT_SUCCESS, q1) \<and>
    fq_pop_n (length es) q1 e block' m' mi' = Some (map (Pair PT_SUCCESS) es, q2) \<and>
    size_q q2 = 0"
proof -
  have "unat (size_q q) + length es \<le> unat (max_elements q)" using assms(2,3) by simp
  from fq_push_all_contents[OF assms(1) this assms(4,5), of mi]
  obtain q1 where q1: "fq_push_all q es block m mi = Some (replicate (length es) PT_SUCCESS, q1)"
    "fq_wf q1" "contents q1 = contents q @ es"
    "unat (size_q q1) = unat (size_q q) + length es" by blast
  have c1: "contents q1 = es" using q1(3) assms(2) by (simp add: contents_empty)
  have "length es \<le> unat (size_q q1)" using q1(4) by simp
  from fq_pop_n_contents[OF q1(2) this assms(6,7,8), of e]
  obtain q2 where q2: "fq_pop_n (length es) q1 e block' m' mi' =
      Some (map (Pair PT_SUCCESS) (take (length es) (contents q1)), q2)"
    "unat (size_q q2) = unat (size_q q1) - length es" by blast
  have "size_q q2 = 0" using q2(2) q1(4) assms(2) by (simp add: unat_eq_0)
  then show ?thesis using q1(1) q2(1) c1 by simp
qed

theorem fq_pops_return_pushes_in_order_witness:
  "\<exists>q1 q2.
    fq_push_all \<lparr>elements = Some [task 0, task 0, task 0], front = 2, back_q = 2, size_q = 0,
        max_elements = 3\<rparr> [task 1, task 2, task 3] 1 ok_calls ok_calls =
      Some ([PT_SUCCESS, PT_SUCCESS, PT_SUCCESS], q1) \<and>
    fq_pop_n 3 q1 (task 9) 0 ok_calls ok_calls =
      Some ([(PT_SUCCESS, task 1), (PT_SUCCESS, task 2), (PT_SUCCESS, task 3)], q2) \<and>
    size_q q2 = 0"
proof -
  let ?q = "\<lparr>elements = Some [task 0, task 0, task 0], front = 2, back_q = 2, size_q = 0,
        max_elements = 3\<rparr>"
  have wf: "fq_wf ?q" and empty: "size_q ?q = 0"
    and len: "length [task 1, task 2, task 3] \<le> unat (max_elements ?q)"
    by (simp_all add: fq_wf_def fq_valid_def)
  have ok: "acquired 1 ok_calls" "released ok_calls" "acquired 0 ok_calls"
    by (simp_all add: acquired_def released_def)
  from fq_pops_return_pushes_in_order [OF wf empty len ok(1) ok(2) ok(3) ok(2) ok(3),
      of ok_calls "task 9"]
  show ?thesis
    by (simp add: numeral_3_eq_3 del: fq_push_all.simps fq_pop_n.simps)
qed

subsection \<open>Alternating push and pop\<close>

lemma fq_alternate_rounds:
  assumes "fq_wf q" and "size_q q = 0" and "max_elements q \<noteq> 0"
    and "acquired block m" and "released m" and "acquired block mi"
  shows "\<exists>q'. fq_alternate q es e block m mi =
      Some (map (\<lambda>t. (PT_SUCCESS, PT_SUCCESS, t)) es, q') \<and>
    fq_wf q' \<and> size_q q' = 0 \<and> max_elements q' = max_elements q \<and>
    unat (front q') = (unat (front q) + length es) mod unat (max_elements q)"
  using assms
proof (induction es arbitrary: q e)
  case Nil
  have "front q < max_elements q"
    using valid_indices[OF wf_valid[OF Nil.prems(1)] Nil.prems(3)] by simp
  then show ?case using Nil by (simp add: word_less_nat_alt)
next
  case (Cons t ts)
  have "size_q q < max_elements q" using Cons.prems(2,3) by (simp add: word_greater_zero_iff)
  from fq_push_contents[OF Cons.prems(1) this Cons.prems(4,5), of t mi]
  obtain q1 where q1: "fq_push q t block m mi = Some (PT_SUCCESS, q1)" "fq_wf q1"
    "contents q1 = contents q @ [t]" "unat (size_q q1) = unat (size_q q) + 1"
    "max_elements q1 = max_elements q" "front q1 = front q" by blast
  have c1: "contents q1 = [t]" using q1(3) Cons.prems(2) by (simp add: contents_empty)
  have "size_q q1 \<noteq> 0" using q1(4) by auto
  from fq_pop_contents[OF q1(2) this Cons.prems(4,5,6), of e]
  obtain q2 t' where q2: "fq_pop q1 e block m mi = Some (PT_SUCCESS, q2, t')" "fq_wf q2"
    "contents q1 = t' # contents q2" "unat (size_q q2) = unat (size_q q1) - 1"
    "max_elements q2 = max_elements q1"
    "unat (front q2) = (unat (front q1) + 1) mod unat (max_elements q1)" by blast
  have t': "t' = t" using c1 q2(3) by simp
  have s2: "size_q q2 = 0" using q2(4) q1(4) Cons.prems(2) by (simp add: unat_eq_0)
  have nz2: "max_elements q2 \<noteq> 0" using q2(5) q1(5) Cons.prems(3) by simp
  from Cons.IH[OF q2(2) s2 nz2 Cons.prems(4,5,6), of t']
  obtain q3 where q3: "fq_alternate q2 ts t' block m mi =
      Some (map (\<lambda>t. (PT_SUCCESS, PT_SUCCESS, t)) ts, q3)"
    "fq_wf q3" "size_q q3 = 0" "max_elements q3 = max_elements q2"
    "unat (front q3) = (unat (front q2) + length ts) mod unat (max_elements q2)" by blast
  have "unat (front q3) = (unat (front q) + length (t # ts)) mod unat (max_elements q)"
    using q3(5) q2(6,5) q1(5,6) by (simp add: mod_add_left_eq add.assoc)
  then show ?case using q1 q2 q3 t' by simp
qed

text \<open>
  Claim C7. On a well-formed empty queue of capacity \<open>N \<ge> 1\<close>, when every lock and
  unlock call returns 0: in any number of rounds of one push and one pop, every push and
  every pop returns \<open>PT_SUCCESS\<close>, each pop returns the task just pushed, and the queue
  is empty at the end, with \<open>front\<close> and \<open>back\<close> advanced by the number of rounds
  modulo \<open>N\<close>. After exactly \<open>N\<close> rounds (\<open>2N\<close> calls) both indices have gone once
  around the buffer and are where they started.
\<close>

theorem fq_alternate_wraps:
  assumes "fq_wf q" and "size_q q = 0" and "1 \<le> unat (max_elements q)"
    and "acquired block m" and "released m" and "acquired block mi"
  shows "\<exists>q'. fq_alternate q es e block m mi =
      Some (map (\<lambda>t. (PT_SUCCESS, PT_SUCCESS, t)) es, q') \<and>
    size_q q' = 0 \<and> max_elements q' = max_elements q \<and>
    unat (front q') = (unat (front q) + length es) mod unat (max_elements q) \<and>
    back_q q' = front q' \<and>
    (length es = unat (max_elements q) \<longrightarrow> front q' = front q \<and> back_q q' = back_q q)"
proof -
  have nz: "max_elements q \<noteq> 0" using assms(3) by auto
  from fq_alternate_rounds[OF assms(1,2) nz assms(4,5,6), of es e]
  obtain q' where q': "fq_alternate q es e block m mi =
      Some (map (\<lambda>t. (PT_SUCCESS, PT_SUCCESS, t)) es, q')"
    "fq_wf q'" "size_q q' = 0" "max_elements q' = max_elements q"
    "unat (front q') = (unat (front q) + length es) mod unat (max_elements q)" by blast
  have f: "front q < max_elements q" "front q' < max_elements q'"
    using valid_indices[OF wf_valid[OF assms(1)] nz]
      valid_indices[OF wf_valid[OF q'(2)]] q'(4) nz by simp_all
  have b: "unat (back_q q) = unat (front q)"
    using wf_ring[OF assms(1)] assms(2) f by (simp add: word_less_nat_alt)
  have b': "unat (back_q q') = unat (front q')"
    using wf_ring[OF q'(2)] q'(3) f by (simp add: word_less_nat_alt)
  have "front q' = front q \<and> back_q q' = back_q q" if "length es = unat (max_elements q)"
    using that q'(5) b b' f by (simp add: word_unat_eq_iff word_less_nat_alt)
  then show ?thesis using q' b' by (auto simp: word_unat_eq_iff)
qed

theorem fq_alternate_wraps_witness:
  "\<exists>q'. fq_alternate \<lparr>elements = Some [task 0, task 0], front = 1, back_q = 1, size_q = 0,
        max_elements = 2\<rparr> [task 1, task 2] (task 9) 1 ok_calls ok_calls =
      Some ([(PT_SUCCESS, PT_SUCCESS, task 1), (PT_SUCCESS, PT_SUCCESS, task 2)], q') \<and>
    size_q q' = 0 \<and> front q' = 1 \<and> back_q q' = 1"
proof -
  let ?q = "\<lparr>elements = Some [task 0, task 0], front = 1, back_q = 1, size_q = 0,
        max_elements = 2\<rparr>"
  have wf: "fq_wf ?q" and empty: "size_q ?q = 0" and cap: "1 \<le> unat (max_elements ?q)"
    by (simp_all add: fq_wf_def fq_valid_def)
  have ok: "acquired 1 ok_calls" "released ok_calls"
    by (simp_all add: acquired_def released_def)
  from fq_alternate_wraps [OF wf empty cap ok(1) ok(2) ok(1), of "[task 1, task 2]" "task 9"]
  show ?thesis
    by (simp del: fq_alternate.simps) blast
qed

subsection \<open>Construction\<close>

lemma fq_init_success:
  assumes "fq_init q0 n c = (PT_SUCCESS, q)"
  shows "\<exists>junk. malloc c = Some junk \<and>
    q = q0\<lparr>front := 0, back_q := 0, size_q := 0, max_elements := n,
           elements := Some (map junk [0..<unat n])\<rparr>"
  using assms
  by (auto simp: fq_init_def Let_def split: if_splits option.splits)

lemma fq_init_wf:
  assumes "fq_init q0 n c = (PT_SUCCESS, q)"
  shows "fq_wf q \<and> size_q q = 0 \<and> max_elements q = n \<and> front q = 0 \<and> back_q q = 0"
proof -
  from fq_init_success[OF assms] obtain junk where
    q: "q = q0\<lparr>front := 0, back_q := 0, size_q := 0, max_elements := n,
           elements := Some (map junk [0..<unat n])\<rparr>" by blast
  show ?thesis unfolding q
    by (simp add: fq_wf_def fq_valid_def word_greater_zero_iff)
qed

lemma fq_init_failure:
  assumes "fq_init q0 n c = (r, q)" and "r \<noteq> PT_SUCCESS"
  shows "q = q0 \<or> elements q = None"
  using assms
  by (auto simp: fq_init_def Let_def split: if_splits option.splits)

subsection \<open>The size stays within the capacity\<close>

lemma fq_push_wf:
  assumes wf: "fq_wf q"
  shows "\<exists>r q'. fq_push q e block m mi = Some (r, q') \<and> fq_wf q' \<and>
    max_elements q' = max_elements q"
proof (cases "acquired block m")
  case False
  then show ?thesis using wf by (simp add: fq_push_not_acquired)
next
  case acq: True
  show ?thesis
  proof (cases "size_q q = max_elements q")
    case True
    then show ?thesis using wf acq by (simp add: fq_push_full)
  next
    case ne: False
    have v: "fq_valid q" using wf by (rule wf_valid)
    obtain xs where xs: "elements q = Some xs" "length xs = unat (max_elements q)"
      using valid_elements[OF v] by blast
    have "unat (size_q q) \<le> unat (max_elements q)" using v by (rule valid_size)
    then have lt: "size_q q < max_elements q"
      using ne by (simp add: word_less_nat_alt word_unat_eq_iff)
    then have nz: "max_elements q \<noteq> 0" by auto
    have b: "back_q q < max_elements q" using valid_indices[OF v nz] by simp
    let ?q = "q\<lparr>size_q := size_q q + 1, back_q := wrap_inc (max_elements q) (back_q q),
             elements := Some (xs[unat (wrap_inc (max_elements q) (back_q q)) := e])\<rparr>"
    have "fq_wf ?q" using push_state[OF wf lt xs(1) refl, of e] by simp
    then show ?thesis using fq_push_step[OF acq xs b ne, of e mi] by simp
  qed
qed

lemma fq_pop_wf:
  assumes wf: "fq_wf q" and re: "acquired block m \<longrightarrow> acquired block mi"
  shows "\<exists>r q' e'. fq_pop q e block m mi = Some (r, q', e') \<and> fq_wf q' \<and>
    max_elements q' = max_elements q"
proof (cases "acquired block m")
  case False
  then show ?thesis using wf by (simp add: fq_pop_not_acquired)
next
  case acq: True
  then have acqi: "acquired block mi" using re by simp
  show ?thesis
  proof (cases "size_q q = 0")
    case True
    then show ?thesis using wf acq acqi by (simp add: fq_pop_empty)
  next
    case ne: False
    have v: "fq_valid q" using wf by (rule wf_valid)
    obtain xs where xs: "elements q = Some xs" "length xs = unat (max_elements q)"
      using valid_elements[OF v] by blast
    have "0 < unat (size_q q)" using ne by (simp add: unat_gt_0)
    then have nz: "max_elements q \<noteq> 0" using valid_size[OF v] by auto
    have f: "front q < max_elements q" using valid_indices[OF v nz] by simp
    let ?q = "q\<lparr>size_q := size_q q - 1, front := wrap_inc (max_elements q) (front q)\<rparr>"
    have "fq_wf ?q" using pop_state[OF wf ne xs(1) refl] by simp
    then show ?thesis using fq_pop_step[OF acq acqi xs f ne, of e] by simp
  qed
qed

lemma fq_call_wf:
  assumes "fq_wf q" and "reentrant c"
  shows "\<exists>q'. fq_call q c = Some q' \<and> fq_wf q' \<and> max_elements q' = max_elements q"
proof (cases c)
  case (Push e block m mi)
  then show ?thesis using fq_push_wf[OF assms(1), of e block m mi] by auto
next
  case (Pop e block m mi)
  then have "acquired block m \<longrightarrow> acquired block mi" using assms(2) by simp
  from fq_pop_wf[OF assms(1) this, of e] show ?thesis using Pop by auto
qed

lemma fq_calls_wf:
  assumes "fq_wf q" and "list_all reentrant cs"
  shows "\<exists>qs. fq_calls q cs = Some qs \<and> length qs = length cs \<and>
    list_all (\<lambda>q'. fq_wf q' \<and> max_elements q' = max_elements q) qs"
  using assms
proof (induction cs arbitrary: q)
  case Nil
  then show ?case by simp
next
  case (Cons c cs)
  from Cons.prems have c: "reentrant c" and cs: "list_all reentrant cs" by simp_all
  from fq_call_wf[OF Cons.prems(1) c]
  obtain q1 where q1: "fq_call q c = Some q1" "fq_wf q1" "max_elements q1 = max_elements q"
    by blast
  from Cons.IH[OF q1(2) cs]
  obtain qs where qs: "fq_calls q1 cs = Some qs" "length qs = length cs"
    "list_all (\<lambda>q'. fq_wf q' \<and> max_elements q' = max_elements q1) qs" by blast
  show ?case using q1 qs by simp
qed

text \<open>
  Without that assumption the model lets \<open>fq_pop\<close> run on an empty queue:
  \<open>fq_pop\<close> drops the return value of \<open>fq_is_empty\<close>, so when the nested lock call
  fails \<open>is_empty\<close> keeps its initial 0, \<open>size\<close> wraps to \<open>2^32 - 1\<close> and a stale slot is
  returned.
\<close>

lemma fq_pop_nested_lock_failure:
  "fq_pop \<lparr>elements = Some [task 1, task 2], front = 0, back_q = 0, size_q = 0,
        max_elements = 2\<rparr> (task 9) 0 ok_calls
      \<lparr>pthread_mutex_lock = 0, pthread_mutex_trylock = 16, pthread_mutex_unlock = 0\<rparr> =
     Some (PT_SUCCESS, \<lparr>elements = Some [task 1, task 2], front = 1, back_q = 0,
        size_q = 4294967295, max_elements = 2\<rparr>, task 2)"
  by (simp add: fq_pop_def fq_is_empty_def elements_at_def Let_def)

text \<open>
  Claim C5. A queue constructed by \<open>fq_init\<close> with capacity \<open>n\<close> has \<open>size = 0\<close>, and
  after each call of any sequence of \<open>fq_push\<close> and \<open>fq_pop\<close> calls, whatever their
  modes and whichever of their lock and unlock calls fail, \<open>size\<close> is at most \<open>n\<close>
  (as an unsigned number it is never below 0, and never wraps) and \<open>max_elements\<close> is
  still \<open>n\<close>; the queue also stays well-formed. The mutex is taken to be recursive (\<open>reentrant\<close>): a call that holds it
  acquires it again in the nested query.
\<close>

theorem fq_size_within_capacity:
  assumes "fq_init q0 n c = (PT_SUCCESS, q)" and "list_all reentrant cs"
  shows "size_q q = 0 \<and>
    (\<exists>qs. fq_calls q cs = Some qs \<and> length qs = length cs \<and>
       list_all (\<lambda>q'. unat (size_q q') \<le> unat n \<and> max_elements q' = n \<and> fq_wf q') qs)"
proof -
  from fq_init_wf[OF assms(1)] have q: "fq_wf q" "size_q q = 0" "max_elements q = n"
    by simp_all
  from fq_calls_wf[OF q(1) assms(2)]
  obtain qs where qs: "fq_calls q cs = Some qs" "length qs = length cs"
    "list_all (\<lambda>q'. fq_wf q' \<and> max_elements q' = max_elements q) qs" by blast
  have "list_all (\<lambda>q'. unat (size_q q') \<le> unat n \<and> max_elements q' = n \<and> fq_wf q') qs"
    using qs(3) q(3) valid_size wf_valid by (fastforce simp: list_all_iff)
  then show ?thesis using q qs by simp
qed

theorem fq_size_within_capacity_witness:
  "\<exists>qs. fq_calls \<lparr>elements = Some [task 0], front = 0, back_q = 0, size_q = 0,
        max_elements = 1\<rparr>
      [Push (task 1) 1 ok_calls ok_calls, Push (task 2) 1 ok_calls ok_calls,
       Pop (task 9) 0 ok_calls ok_calls, Pop (task 9) 0 ok_calls ok_calls] = Some qs \<and>
    length qs = 4 \<and>
    list_all (\<lambda>q'. unat (size_q q') \<le> 1 \<and> max_elements q' = 1 \<and> fq_wf q') qs"
proof -
  have init: "fq_init \<lparr>elements = None, front = 7, back_q = 7, size_q = 7, max_elements = 7\<rparr>
      1 ok_init =
    (PT_SUCCESS, \<lparr>elements = Some [task 0], front = 0, back_q = 0, size_q = 0,
        max_elements = 1\<rparr>)"
    by (simp add: fq_init_def init_attr_def zero_block_def Let_def)
  have re: "list_all reentrant
      [Push (task 1) 1 ok_calls ok_calls, Push (task 2) 1 ok_calls ok_calls,
       Pop (task 9) 0 ok_calls ok_calls, Pop (task 9) 0 ok_calls ok_calls]"
    by (simp add: acquired_def)
  from fq_size_within_capacity [OF init re]
  show ?thesis by (auto simp del: fq_calls.simps)
qed

subsection \<open>The first push\<close>

text \<open>
  Claim C8 says that the first push on a fresh queue advances \<open>back\<close> to 1. On a queue
  constructed with capacity 1 it does not: \<open>back\<close> steps to 1, which is
  \<open>max_elements\<close>, wraps to 0, and the task is written into slot 0.
\<close>

theorem fq_first_push_capacity_one:
  "fq_init \<lparr>elements = None, front = 7, back_q = 7, size_q = 7, max_elements = 7\<rparr> 1 ok_init =
     (PT_SUCCESS, \<lparr>elements = Some [task 0], front = 0, back_q = 0, size_q = 0,
        max_elements = 1\<rparr>) \<and>
   fq_push \<lparr>elements = Some [task 0], front = 0, back_q = 0, size_q = 0, max_elements = 1\<rparr>
      (task 5) 1 ok_calls ok_calls =
     Some (PT_SUCCESS, \<lparr>elements = Some [task 5], front = 0, back_q = 0, size_q = 1,
        max_elements = 1\<rparr>) \<and>
   back_q \<lparr>elements = Some [task 5], front = 0, back_q = 0, size_q = 1,
        max_elements = 1\<rparr> \<noteq> 1"
  by (simp add: fq_init_def init_attr_def zero_block_def fq_push_def fq_is_full_def
      elements_set_def Let_def)

text \<open>
  Claim C8, amended. A queue constructed by \<open>fq_init\<close> has \<open>front = back = 0\<close> and
  \<open>size = 0\<close>, and its slots hold what \<open>malloc\<close> left there: none is written. When
  the capacity is at least 2, the first push (lock and unlock returning 0) advances
  \<open>back\<close> to 1 and writes the task into slot 1, leaving slot 0 as it was. When the
  capacity is 1, the first push wraps \<open>back\<close> to 0 and writes the task into slot 0.
  When the capacity is 0, the first push returns \<open>PT_EFQFULL\<close>.
\<close>

theorem fq_init_then_first_push:
  assumes init: "fq_init q0 n c = (PT_SUCCESS, q)"
    and acq: "acquired block m" and rel: "released m"
  shows "front q = 0 \<and> back_q q = 0 \<and> size_q q = 0 \<and> max_elements q = n \<and>
    (\<exists>junk. malloc c = Some junk \<and> elements q = Some (map junk [0..<unat n])) \<and>
    (2 \<le> unat n \<longrightarrow>
       (\<exists>q'. fq_push q e block m mi = Some (PT_SUCCESS, q') \<and> back_q q' = 1 \<and>
          elements_at q' 1 = Some e \<and> elements_at q' 0 = elements_at q 0 \<and>
          size_q q' = 1 \<and> front q' = 0)) \<and>
    (unat n = 1 \<longrightarrow>
       (\<exists>q'. fq_push q e block m mi = Some (PT_SUCCESS, q') \<and> back_q q' = 0 \<and>
          elements_at q' 0 = Some e \<and> size_q q' = 1 \<and> front q' = 0)) \<and>
    (unat n = 0 \<longrightarrow> fq_push q e block m mi = Some (PT_EFQFULL, q))"
proof -
  from fq_init_success[OF init] obtain junk where junk: "malloc c = Some junk"
    and q: "q = q0\<lparr>front := 0, back_q := 0, size_q := 0, max_elements := n,
           elements := Some (map junk [0..<unat n])\<rparr>" by blast
  let ?xs = "map junk [0..<unat n]"
  have xs: "elements q = Some ?xs" "length ?xs = unat (max_elements q)" using q by simp_all
  have fields: "front q = 0" "back_q q = 0" "size_q q = 0" "max_elements q = n"
    using q by simp_all
  have step: "fq_push q e block m mi =
      Some (PT_SUCCESS, q\<lparr>size_q := 1, back_q := wrap_inc n 0,
              elements := Some (?xs[unat (wrap_inc n 0) := e])\<rparr>)" if "n \<noteq> 0"
  proof -
    have b: "back_q q < max_elements q" using that fields by (simp add: word_greater_zero_iff)
    have ne: "size_q q \<noteq> max_elements q" using that fields by simp
    show ?thesis using fq_push_step[OF acq xs b ne, of e mi] rel fields
      by (simp add: released_def)
  qed
  have big: "\<exists>q'. fq_push q e block m mi = Some (PT_SUCCESS, q') \<and> back_q q' = 1 \<and>
          elements_at q' 1 = Some e \<and> elements_at q' 0 = elements_at q 0 \<and>
          size_q q' = 1 \<and> front q' = 0" if n2: "2 \<le> unat n"
  proof -
    have nz: "n \<noteq> 0" using n2 by auto
    have "(1::32 word) \<noteq> n" using n2 by auto
    then have w: "wrap_inc n 0 = 1" by (simp add: wrap_inc_def)
    show ?thesis using step[OF nz] w n2 xs fields
      by (simp add: elements_at_def)
  qed
  have one: "\<exists>q'. fq_push q e block m mi = Some (PT_SUCCESS, q') \<and> back_q q' = 0 \<and>
          elements_at q' 0 = Some e \<and> size_q q' = 1 \<and> front q' = 0" if n1: "unat n = 1"
  proof -
    have nz: "n \<noteq> 0" using n1 by auto
    have "n = 1" using n1 by (simp add: word_unat_eq_iff)
    then have w: "wrap_inc n 0 = 0" by (simp add: wrap_inc_def)
    show ?thesis using step[OF nz] w n1 xs fields
      by (simp add: elements_at_def)
  qed
  have none: "fq_push q e block m mi = Some (PT_EFQFULL, q)" if "unat n = 0"
    using that fields acq rel by (simp add: fq_push_full released_def unat_eq_0)
  show ?thesis using fields junk xs big one none by simp
qed

theorem fq_init_then_first_push_witness:
  "(\<exists>q'. fq_push \<lparr>elements = Some [task 0, task 0, task 0], front = 0, back_q = 0, size_q = 0,
        max_elements = 3\<rparr> (task 5) 1 ok_calls ok_calls = Some (PT_SUCCESS, q') \<and>
      back_q q' = 1 \<and> elements_at q' 1 = Some (task 5) \<and> elements_at q' 0 = Some (task 0)) \<and>
   (\<exists>q'. fq_push \<lparr>elements = Some [task 0], front = 0, back_q = 0, size_q = 0,
        max_elements = 1\<rparr> (task 5) 1 ok_calls ok_calls = Some (PT_SUCCESS, q') \<and>
      back_q q' = 0 \<and> elements_at q' 0 = Some (task 5))"
proof -
  have init3: "fq_init \<lparr>elements = None, front = 7, back_q = 7, size_q = 7, max_elements = 7\<rparr>
      3 ok_init =
    (PT_SUCCESS, \<lparr>elements = Some [task 0, task 0, task 0], front = 0, back_q = 0, size_q = 0,
        max_elements = 3\<rparr>)"
    by (simp add: fq_init_def init_attr_def zero_block_def Let_def upt_rec)
  have init1: "fq_init \<lparr>elements = None, front = 7, back_q = 7, size_q = 7, max_elements = 7\<rparr>
      1 ok_init =
    (PT_SUCCESS, \<lparr>elements = Some [task 0], front = 0, back_q = 0, size_q = 0,
        max_elements = 1\<rparr>)"
    by (simp add: fq_init_def init_attr_def zero_block_def Let_def)
  have ok: "acquired 1 ok_calls" "released ok_calls"
    by (simp_all add: acquired_def released_def)
  have slot0: "elements_at \<lparr>elements = Some [task 0, task 0, task 0], front = 0, back_q = 0,
      size_q = 0, max_elements = 3\<rparr> 0 = Some (task 0)"
    by (simp add: elements_at_def)
  note first3 = fq_init_then_first_push [OF init3 ok, of "task 5" ok_calls,
      THEN conjunct2, THEN conjunct2, THEN conjunct2, THEN conjunct2, THEN conjunct2,
      THEN conjunct1]
  note first1 = fq_init_then_first_push [OF init1 ok, of "task 5" ok_calls,
      THEN conjunct2, THEN conjunct2, THEN conjunct2, THEN conjunct2, THEN conjunct2,
      THEN conjunct2, THEN conjunct1]
  from first3 first1 show ?thesis by (simp add: slot0) blast
qed

subsection \<open>Capacity 0\<close>

lemma fq_call_no_capacity:
  assumes "size_q q = 0" and "max_elements q = 0" and "reentrant c"
  shows "fq_call q c = Some q"
proof (cases c)
  case (Push e block m mi)
  then show ?thesis using assms
    by (cases "acquired block m") (simp_all add: fq_push_full fq_push_not_acquired)
next
  case (Pop e block m mi)
  then show ?thesis using assms
    by (cases "acquired block m") (simp_all add: fq_pop_empty fq_pop_not_acquired)
qed

lemma fq_calls_no_capacity:
  assumes "size_q q = 0" and "max_elements q = 0" and "list_all reentrant cs"
  shows "fq_calls q cs = Some (replicate (length cs) q)"
  using assms by (induction cs) (simp_all add: fq_call_no_capacity)

text \<open>
  Claim C9. \<open>fq_init\<close> with capacity 0 either fails, returning an error and leaving
  the queue untouched or without a buffer (\<open>malloc(0)\<close> returned \<open>NULL\<close>), or
  succeeds with a queue on which every \<open>fq_push\<close> returns \<open>PT_EFQFULL\<close> and every
  \<open>fq_pop\<close> returns \<open>PT_EFQEMPTY\<close> (lock and unlock returning 0), each leaving the
  queue as it was; and no sequence of pushes and pops ever changes that queue.
\<close>

theorem fq_init_zero_capacity:
  assumes "fq_init q0 0 c = (r, q)"
  shows "(r \<noteq> PT_SUCCESS \<and> (q = q0 \<or> elements q = None)) \<or>
    (r = PT_SUCCESS \<and>
     (\<forall>e block m mi. acquired block m \<and> released m \<longrightarrow>
        fq_push q e block m mi = Some (PT_EFQFULL, q)) \<and>
     (\<forall>e block m mi. acquired block m \<and> released m \<and> acquired block mi \<longrightarrow>
        fq_pop q e block m mi = Some (PT_EFQEMPTY, q, e)) \<and>
     (\<forall>cs. list_all reentrant cs \<longrightarrow> fq_calls q cs = Some (replicate (length cs) q)))"
proof (cases "r = PT_SUCCESS")
  case False
  then show ?thesis using fq_init_failure[OF assms] by simp
next
  case True
  then have "fq_init q0 0 c = (PT_SUCCESS, q)" using assms by simp
  from fq_init_wf[OF this] have q: "size_q q = 0" "max_elements q = 0" by simp_all
  have "fq_push q e block m mi = Some (PT_EFQFULL, q)"
    if "acquired block m \<and> released m" for e block m mi
    using that q by (simp add: fq_push_full released_def)
  moreover have "fq_pop q e block m mi = Some (PT_EFQEMPTY, q, e)"
    if "acquired block m \<and> released m \<and> acquired block mi" for e block m mi
    using that q by (simp add: fq_pop_empty released_def)
  moreover have "fq_calls q cs = Some (replicate (length cs) q)"
    if "list_all reentrant cs" for cs
    using that q by (simp add: fq_calls_no_capacity)
  ultimately show ?thesis using True by blast
qed

theorem fq_init_zero_capacity_witness:
  "fq_init \<lparr>elements = None, front = 7, back_q = 7, size_q = 7, max_elements = 7\<rparr> 0
      (ok_init\<lparr>malloc := None\<rparr>) =
     (PT_EMALLOC, \<lparr>elements = None, front = 0, back_q = 0, size_q = 0, max_elements = 0\<rparr>) \<and>
   fq_push \<lparr>elements = Some [], front = 0, back_q = 0, size_q = 0, max_elements = 0\<rparr>
      (task 5) 1 ok_calls ok_calls =
     Some (PT_EFQFULL, \<lparr>elements = Some [], front = 0, back_q = 0, size_q = 0,
        max_elements = 0\<rparr>) \<and>
   fq_pop \<lparr>elements = Some [], front = 0, back_q = 0, size_q = 0, max_elements = 0\<rparr>
      (task 9) 0 ok_calls ok_calls =
     Some (PT_EFQEMPTY, \<lparr>elements = Some [], front = 0, back_q = 0, size_q = 0,
        max_elements = 0\<rparr>, task 9)"
proof -
  have null: "fq_init \<lparr>elements = None, front = 7, back_q = 7, size_q = 7, max_elements = 7\<rparr> 0
      (ok_init\<lparr>malloc := None\<rparr>) =
     (PT_EMALLOC, \<lparr>elements = None, front = 0, back_q = 0, size_q = 0, max_elements = 0\<rparr>)"
    by (simp add: fq_init_def init_attr_def Let_def)
  have some: "fq_init \<lparr>elements = None, front = 7, back_q = 7, size_q = 7, max_elements = 7\<rparr> 0
      ok_init =
     (PT_SUCCESS, \<lparr>elements = Some [], front = 0, back_q = 0, size_q = 0, max_elements = 0\<rparr>)"
    by (simp add: fq_init_def init_attr_def Let_def)
  have ok: "acquired 1 ok_calls \<and> released ok_calls"
    "acquired 0 ok_calls \<and> released ok_calls \<and> acquired 0 ok_calls"
    by (simp_all add: acquired_def released_def)
  from fq_init_zero_capacity [OF some] fq_init_zero_capacity [OF null] ok null
  show ?thesis by simp
qed

end
